theory Spec2Isabelle
  imports Main "HOL-Library.Word" "HOL-Library.Signed_Division"
begin

unbundle bit_operations_syntax

section \<open>Machine types\<close>

text \<open>
  \<open>uint8_t\<close> is an 8-bit word. The \<open>int\<close> of the C++ source is modelled by HOL's
  \<open>int\<close>; its division \<open>/\<close> and remainder \<open>%\<close> truncate towards zero and are
  written \<open>sdiv\<close> and \<open>smod\<close>. With the field values the loader resolves (hue shift in
  \<open>[0, 359]\<close>, saturation and brightness in \<open>[0, 200]\<close>) and the buffers the hook passes
  (at most 282 bytes) every intermediate value of the colour arithmetic stays far below
  \<open>2 ^ 31\<close>, so no operation leaves the range of the 32-bit type. A cast
  \<open>(uint8_t) x\<close> is \<open>word_of_int x\<close>, which keeps the low eight bits.
\<close>

type_synonym u8 = "8 word"

section \<open>RGB and HSV conversion\<close>

text \<open>\<open>RGBtoHSV\<close>: the three out-parameters \<open>h\<close>, \<open>s\<close>, \<open>v\<close> are returned as a triple.\<close>

definition RGBtoHSV :: "u8 \<Rightarrow> u8 \<Rightarrow> u8 \<Rightarrow> int \<times> int \<times> int" where
  "RGBtoHSV r g b =
     (let maxVal = max (max (uint r) (uint g)) (uint b);
          minVal = min (min (uint r) (uint g)) (uint b);
          delta = maxVal - minVal;
          v = maxVal
      in if maxVal = 0 then (0, 0, v)
         else
           let s = (delta * 255) sdiv maxVal
           in if delta = 0 then (0, s, v)
              else
                let h = (if maxVal = uint r then (60 * (uint g - uint b)) sdiv delta
                         else if maxVal = uint g then 120 + (60 * (uint b - uint r)) sdiv delta
                         else 240 + (60 * (uint r - uint g)) sdiv delta)
                in (if h < 0 then h + 360 else h, s, v))"

text \<open>\<open>HSVtoRGB\<close>: the three out-parameters \<open>r\<close>, \<open>g\<close>, \<open>b\<close> are returned as a triple.\<close>

definition HSVtoRGB :: "int \<Rightarrow> int \<Rightarrow> int \<Rightarrow> u8 \<times> u8 \<times> u8" where
  "HSVtoRGB h s v =
     (if s = 0 then (word_of_int v, word_of_int v, word_of_int v)
      else
        let h' = h smod 360;
            region = h' sdiv 60;
            remainder = h' smod 60;
            p = (v * (255 - s)) sdiv 255;
            q = (v * (255 - (s * remainder) sdiv 60)) sdiv 255;
            t = (v * (255 - (s * (60 - remainder)) sdiv 60)) sdiv 255
        in if region = 0 then (word_of_int v, word_of_int t, word_of_int p)
           else if region = 1 then (word_of_int q, word_of_int v, word_of_int p)
           else if region = 2 then (word_of_int p, word_of_int v, word_of_int t)
           else if region = 3 then (word_of_int p, word_of_int q, word_of_int v)
           else if region = 4 then (word_of_int t, word_of_int p, word_of_int v)
           else (word_of_int v, word_of_int p, word_of_int q))"

section \<open>Data model (transform.h)\<close>

datatype ChannelOrder = CH_RGB | CH_RBG | CH_GRB | CH_GBR | CH_BRG | CH_BGR

text \<open>
  A \<open>float\<close> is kept as its IEEE-754 binary32 bit pattern. The only float operation
  the model performs itself is the comparison with \<open>1.0f\<close>, which is true exactly for
  the pattern \<open>0x3F800000\<close>. Conversions from and to text and the power curve are
  library functions; they are parameters of the model (record \<open>libfuns\<close> below).
\<close>

type_synonym cfloat = "32 word"

definition f_one :: cfloat where
  "f_one = 0x3F800000"

text \<open>The lookup tables \<open>uint8_t lut[256]\<close> are indexed by a \<open>uint8_t\<close>: total maps on bytes.\<close>

record StripTransform =
  enabled :: bool
  channelOrder :: ChannelOrder
  gamma_r :: cfloat
  gamma_g :: cfloat
  gamma_b :: cfloat
  hue_shift :: int
  saturation :: int
  brightness :: int
  static_color_enabled :: bool
  static_r :: u8
  static_g :: u8
  static_b :: u8
  gradient_enabled :: bool
  gradient_r2 :: u8
  gradient_g2 :: u8
  gradient_b2 :: u8
  lut_r :: "u8 \<Rightarrow> u8"
  lut_g :: "u8 \<Rightarrow> u8"
  lut_b :: "u8 \<Rightarrow> u8"

record FILETIME =
  dwLowDateTime :: "32 word"
  dwHighDateTime :: "32 word"

text \<open>
  \<open>TransformConfig\<close>: the array \<open>strips[10]\<close> is a list. The field \<open>iniPath\<close> is
  written once by \<open>InitConfig\<close> and only names the file; the observations the
  Win32 calls make on that file are the record \<open>fsview\<close> below, so the path itself is
  not part of the model.
\<close>

record TransformConfig =
  strips :: "StripTransform list"
  lastWriteTime :: FILETIME
  callCounter :: int

definition RELOAD_INTERVAL :: int where
  "RELOAD_INTERVAL = 300"

definition StripSectionNames :: "string list" where
  "StripSectionNames =
     [''title'', ''upper_left_speaker'', ''upper_right_speaker'', ''left_wing'',
      ''right_wing'', ''ctrl_panel'', ''lower_left_speaker'', ''lower_right_speaker'',
      ''woofer'', ''v_unit'']"

section \<open>Library and operating-system functions\<close>

text \<open>
  Functions of the C runtime whose results the source only passes on. They are
  parameters, so every theorem holds for whatever they compute:
  \<^item> \<open>atof_float buf\<close> is \<open>static_cast<float>(atof(buf))\<close>;
  \<^item> \<open>sprintf_4f x\<close> is the text \<open>sprintf_s(defBuf, "%.4f", x)\<close> writes;
  \<^item> \<open>profile_int s\<close> is the 32-bit integer \<open>GetPrivateProfileIntA\<close> converts the
    value text \<open>s\<close> of a key to;
  \<^item> \<open>gamma_val gamma i\<close> is the \<open>int val\<close> of \<open>BuildGammaLUT\<close>, that is
    \<open>static_cast<int>(powf(i / 255.0f, 1.0f / gamma) * 255.0f + 0.5f)\<close>.
\<close>

record libfuns =
  atof_float :: "string \<Rightarrow> cfloat"
  sprintf_4f :: "cfloat \<Rightarrow> string"
  profile_int :: "string \<Rightarrow> 32 word"
  gamma_val :: "cfloat \<Rightarrow> int \<Rightarrow> 32 word"

text \<open>
  What the Win32 calls of one \<open>LoadConfig\<close> or \<open>CheckReload\<close> invocation observe of
  the file \<open>sdvxrgb.ini\<close>: whether \<open>GetFileAttributesW\<close> succeeds, whether
  \<open>CreateFileW\<close> succeeds, the last write time \<open>GetFileTime\<close> reports, and the value
  text of each key of each section (\<open>None\<close> when the key or the section is missing or
  the file cannot be read).
\<close>

record fsview =
  attr_ok :: bool
  open_ok :: bool
  write_time :: FILETIME
  ini :: "string \<Rightarrow> string \<Rightarrow> string option"

text \<open>
  \<open>GetPrivateProfileStringA(section, key, def, buf, nSize, path)\<close>: the value text, or
  the default when the key is missing, cut to the \<open>nSize - 1\<close> characters that fit the
  buffer.
\<close>

definition GetPrivateProfileStringA :: "fsview \<Rightarrow> string \<Rightarrow> string \<Rightarrow> string \<Rightarrow> nat \<Rightarrow> string" where
  "GetPrivateProfileStringA fs section key def nSize =
     take (nSize - 1) (case ini fs section key of None \<Rightarrow> def | Some v \<Rightarrow> v)"

text \<open>\<open>GetPrivateProfileIntA(section, key, nDefault, path)\<close>: the default when the key is missing.\<close>

definition GetPrivateProfileIntA :: "libfuns \<Rightarrow> fsview \<Rightarrow> string \<Rightarrow> string \<Rightarrow> int \<Rightarrow> int" where
  "GetPrivateProfileIntA lib fs section key nDefault =
     (case ini fs section key of None \<Rightarrow> nDefault | Some v \<Rightarrow> sint (profile_int lib v))"

text \<open>\<open>_stricmp(a, b) == 0\<close>: equality of the lower-cased strings.\<close>

definition tolower_c :: "char \<Rightarrow> char" where
  "tolower_c c =
     (let n = (of_char c :: nat) in if 65 \<le> n \<and> n \<le> 90 then char_of (n + 32) else c)"

definition stricmp_eq :: "string \<Rightarrow> string \<Rightarrow> bool" where
  "stricmp_eq a b = (map tolower_c a = map tolower_c b)"

text \<open>
  \<open>sscanf_s(hex, "%06x", &val)\<close> after the C standard (7.21.6.2): the directive skips
  leading white space, then reads at most six characters of an optionally signed
  hexadecimal integer, with an optional \<open>0x\<close> prefix, and stops at the first character
  that does not belong to it. The result is \<open>Some val\<close> when the call returns 1 (at
  least one digit was converted) and \<open>None\<close> otherwise.
\<close>

definition isspace_c :: "char \<Rightarrow> bool" where
  "isspace_c c = (let n = (of_char c :: nat) in n = 32 \<or> (9 \<le> n \<and> n \<le> 13))"

definition hex_val :: "char \<Rightarrow> nat option" where
  "hex_val c =
     (let n = (of_char c :: nat)
      in if 48 \<le> n \<and> n \<le> 57 then Some (n - 48)
         else if 65 \<le> n \<and> n \<le> 70 then Some (n - 55)
         else if 97 \<le> n \<and> n \<le> 102 then Some (n - 87)
         else None)"

definition is_hex :: "char \<Rightarrow> bool" where
  "is_hex c = (hex_val c \<noteq> None)"

definition hex_number :: "string \<Rightarrow> nat" where
  "hex_number ds = foldl (\<lambda>acc c. acc * 16 + (case hex_val c of Some d \<Rightarrow> d | None \<Rightarrow> 0)) 0 ds"

definition strip_sign :: "string \<Rightarrow> bool \<times> string" where
  "strip_sign s =
     (case s of
        [] \<Rightarrow> (False, [])
      | c # cs \<Rightarrow> if c = CHR ''-'' then (True, cs)
                  else if c = CHR ''+'' then (False, cs)
                  else (False, s))"

definition strip_0x :: "string \<Rightarrow> string" where
  "strip_0x s =
     (case s of
        c # x # cs \<Rightarrow> if c = CHR ''0'' \<and> (x = CHR ''x'' \<or> x = CHR ''X'') then cs else s
      | _ \<Rightarrow> s)"

definition sscanf_06x :: "string \<Rightarrow> 32 word option" where
  "sscanf_06x str =
     (let field = take 6 (dropWhile isspace_c str);
          (neg, body) = strip_sign field;
          digits = takeWhile is_hex (strip_0x body)
      in if digits = [] then None
         else Some (if neg then - word_of_nat (hex_number digits)
                    else word_of_nat (hex_number digits)))"

section \<open>Configuration loading\<close>

text \<open>
  \<open>BuildGammaLUT(lut, gamma)\<close> assigns every one of the 256 entries, so the table it
  leaves is a function of \<open>gamma\<close> alone; entry \<open>i\<close> is given for the index byte \<open>i\<close>.
\<close>

definition BuildGammaLUT :: "libfuns \<Rightarrow> cfloat \<Rightarrow> u8 \<Rightarrow> u8" where
  "BuildGammaLUT lib gamma =
     (if gamma = f_one then (\<lambda>i. word_of_int (uint i))
      else (\<lambda>i. let val = sint (gamma_val lib gamma (uint i))
                in word_of_int (min (max val 0) 255)))"

definition ParseChannelOrder :: "string \<Rightarrow> ChannelOrder" where
  "ParseChannelOrder str =
     (if stricmp_eq str ''RBG'' then CH_RBG
      else if stricmp_eq str ''GRB'' then CH_GRB
      else if stricmp_eq str ''GBR'' then CH_GBR
      else if stricmp_eq str ''BRG'' then CH_BRG
      else if stricmp_eq str ''BGR'' then CH_BGR
      else CH_RGB)"

text \<open>
  \<open>ParseHexColor\<close>: \<open>None\<close> is the return value \<open>false\<close> (the out-parameters are not
  written), \<open>Some (r, g, b)\<close> is \<open>true\<close> with the bytes written.
\<close>

definition ParseHexColor :: "string \<Rightarrow> (u8 \<times> u8 \<times> u8) option" where
  "ParseHexColor str =
     (if str = [] then None
      else
        let hex = (if hd str = CHR ''#'' then tl str else str)
        in if length hex \<noteq> 6 then None
           else case sscanf_06x hex of
                  None \<Rightarrow> None
                | Some val \<Rightarrow>
                    Some (ucast (drop_bit 16 val AND 0xFF),
                          ucast (drop_bit 8 val AND 0xFF),
                          ucast (val AND 0xFF)))"

definition GetProfileFloat :: "libfuns \<Rightarrow> fsview \<Rightarrow> string \<Rightarrow> string \<Rightarrow> cfloat \<Rightarrow> cfloat" where
  "GetProfileFloat lib fs section key defaultVal =
     (let defBuf = sprintf_4f lib defaultVal;
          buf = GetPrivateProfileStringA fs section key defBuf 64
      in atof_float lib buf)"

definition order_name :: "ChannelOrder \<Rightarrow> string" where
  "order_name order =
     (case order of
        CH_RBG \<Rightarrow> ''RBG'' | CH_GRB \<Rightarrow> ''GRB'' | CH_GBR \<Rightarrow> ''GBR''
      | CH_BRG \<Rightarrow> ''BRG'' | CH_BGR \<Rightarrow> ''BGR'' | CH_RGB \<Rightarrow> ''RGB'')"

text \<open>
  \<open>LoadStripFromSection(strip, section, defaults, path)\<close> assigns every field of
  \<open>strip\<close> and reads none of them before it is assigned, so the strip it leaves is a
  function of the section and the defaults. (\<open>LoadConfig\<close> calls it once with \<open>strip\<close>
  and \<open>defaults\<close> the same object; each field's default is read before that field is
  written, so the result is that of the function at the defaults before the call.)
\<close>

definition LoadStripFromSection :: "libfuns \<Rightarrow> fsview \<Rightarrow> string \<Rightarrow> StripTransform \<Rightarrow> StripTransform" where
  "LoadStripFromSection lib fs section defaults =
     (let defOrder = order_name (channelOrder defaults);
          orderStr = GetPrivateProfileStringA fs section ''channel_order'' defOrder 16;
          order = ParseChannelOrder orderStr;
          gr = GetProfileFloat lib fs section ''gamma_r'' (gamma_r defaults);
          gg = GetProfileFloat lib fs section ''gamma_g'' (gamma_g defaults);
          gb = GetProfileFloat lib fs section ''gamma_b'' (gamma_b defaults);
          hue0 = GetPrivateProfileIntA lib fs section ''hue_shift'' (hue_shift defaults);
          sat0 = GetPrivateProfileIntA lib fs section ''saturation'' (saturation defaults);
          bri0 = GetPrivateProfileIntA lib fs section ''brightness'' (brightness defaults);
          hue = ((hue0 smod 360) + 360) smod 360;
          sat = min (max sat0 0) 200;
          bri = min (max bri0 0) 200;
          colorStr = GetPrivateProfileStringA fs section ''static_color'' [] 16;
          (sEn, sr, sg, sb) =
             (case ParseHexColor colorStr of
                Some (r, g, b) \<Rightarrow> (True, r, g, b)
              | None \<Rightarrow> (static_color_enabled defaults,
                          static_r defaults, static_g defaults, static_b defaults));
          gradStr = GetPrivateProfileStringA fs section ''gradient_color'' [] 16;
          (gEn, gr2, gg2, gb2) =
             (case (if sEn then ParseHexColor gradStr else None) of
                Some (r, g, b) \<Rightarrow> (True, r, g, b)
              | None \<Rightarrow> (gradient_enabled defaults,
                          gradient_r2 defaults, gradient_g2 defaults, gradient_b2 defaults))
      in \<lparr> enabled = (order \<noteq> CH_RGB \<or> gr \<noteq> f_one \<or> gg \<noteq> f_one \<or> gb \<noteq> f_one \<or>
                       hue \<noteq> 0 \<or> sat \<noteq> 100 \<or> bri \<noteq> 100 \<or> sEn \<or> gEn),
           channelOrder = order,
           gamma_r = gr, gamma_g = gg, gamma_b = gb,
           hue_shift = hue, saturation = sat, brightness = bri,
           static_color_enabled = sEn, static_r = sr, static_g = sg, static_b = sb,
           gradient_enabled = gEn, gradient_r2 = gr2, gradient_g2 = gg2, gradient_b2 = gb2,
           lut_r = BuildGammaLUT lib gr,
           lut_g = BuildGammaLUT lib gg,
           lut_b = BuildGammaLUT lib gb \<rparr>)"

text \<open>
  The identity defaults that \<open>InitConfig\<close> and the deletion branch of \<open>CheckReload\<close>
  assign to every strip, field by field.
\<close>

definition identity_strip :: "libfuns \<Rightarrow> StripTransform" where
  "identity_strip lib =
     \<lparr> enabled = False,
       channelOrder = CH_RGB,
       gamma_r = f_one, gamma_g = f_one, gamma_b = f_one,
       hue_shift = 0, saturation = 100, brightness = 100,
       static_color_enabled = False, static_r = 0, static_g = 0, static_b = 0,
       gradient_enabled = False, gradient_r2 = 0, gradient_g2 = 0, gradient_b2 = 0,
       lut_r = BuildGammaLUT lib f_one,
       lut_g = BuildGammaLUT lib f_one,
       lut_b = BuildGammaLUT lib f_one \<rparr>"

definition zero_time :: FILETIME where
  "zero_time = \<lparr> dwLowDateTime = 0, dwHighDateTime = 0 \<rparr>"

definition InitConfig :: "libfuns \<Rightarrow> TransformConfig" where
  "InitConfig lib =
     \<lparr> strips = replicate 10 (identity_strip lib),
       lastWriteTime = zero_time,
       callCounter = 0 \<rparr>"

text \<open>
  \<open>LoadConfig\<close>. The local \<open>globalDefaults\<close> is set to the hardcoded identity values
  and then loaded from the section \<open>global\<close> with itself as the defaults. Its fields
  \<open>enabled\<close> and \<open>lut_*\<close> are not initialised in the source at that point and
  \<open>LoadStripFromSection\<close> does not read them; in \<open>identity_strip\<close> they hold the
  identity values.
\<close>

definition LoadConfig :: "libfuns \<Rightarrow> fsview \<Rightarrow> TransformConfig \<Rightarrow> TransformConfig" where
  "LoadConfig lib fs config =
     (if \<not> attr_ok fs
      then config\<lparr> strips := map (\<lambda>s. s\<lparr> enabled := False \<rparr>) (strips config) \<rparr>
      else
        let config1 = (if open_ok fs then config\<lparr> lastWriteTime := write_time fs \<rparr>
                       else config);
            globalDefaults = LoadStripFromSection lib fs ''global'' (identity_strip lib)
        in config1\<lparr> strips :=
             map (\<lambda>name. LoadStripFromSection lib fs name globalDefaults) StripSectionNames \<rparr>)"

text \<open>\<open>CompareFileTime(&ft, &config.lastWriteTime) != 0\<close> is inequality of the two times.\<close>

definition CheckReload :: "libfuns \<Rightarrow> fsview \<Rightarrow> TransformConfig \<Rightarrow> TransformConfig" where
  "CheckReload lib fs config =
     (let config1 = config\<lparr> callCounter := callCounter config + 1 \<rparr>
      in if callCounter config1 < RELOAD_INTERVAL then config1
         else
           let config2 = config1\<lparr> callCounter := 0 \<rparr>
           in if \<not> open_ok fs
              then (if dwHighDateTime (lastWriteTime config2) \<noteq> 0 \<or>
                       dwLowDateTime (lastWriteTime config2) \<noteq> 0
                    then config2\<lparr> lastWriteTime := zero_time,
                                  strips := map (\<lambda>s. identity_strip lib) (strips config2) \<rparr>
                    else config2)
              else if write_time fs \<noteq> lastWriteTime config2
                   then LoadConfig lib fs config2
                   else config2)"

section \<open>The per-strip transform\<close>

text \<open>
  The body of the loop of \<open>TransformStrip\<close>, stage by stage. \<open>staticH1\<close>, \<open>staticS1\<close>,
  \<open>staticH2\<close>, \<open>staticS2\<close> and \<open>numLEDs\<close> are the locals computed before the loop and
  \<open>i\<close> is the loop index (the byte offset of the LED).
\<close>

definition swap_channels :: "ChannelOrder \<Rightarrow> u8 \<times> u8 \<times> u8 \<Rightarrow> u8 \<times> u8 \<times> u8" where
  "swap_channels order px =
     (case px of (r, g, b) \<Rightarrow>
        (case order of
           CH_RBG \<Rightarrow> (r, b, g)
         | CH_GRB \<Rightarrow> (g, r, b)
         | CH_GBR \<Rightarrow> (g, b, r)
         | CH_BRG \<Rightarrow> (b, r, g)
         | CH_BGR \<Rightarrow> (b, g, r)
         | CH_RGB \<Rightarrow> (r, g, b)))"

definition gamma_stage :: "StripTransform \<Rightarrow> u8 \<times> u8 \<times> u8 \<Rightarrow> u8 \<times> u8 \<times> u8" where
  "gamma_stage strip px =
     (case px of (cr, cg, cb) \<Rightarrow> (lut_r strip cr, lut_g strip cg, lut_b strip cb))"

definition color_stage ::
    "StripTransform \<Rightarrow> int \<Rightarrow> int \<Rightarrow> int \<Rightarrow> int \<Rightarrow> int \<Rightarrow> int \<Rightarrow> u8 \<times> u8 \<times> u8 \<Rightarrow> u8 \<times> u8 \<times> u8" where
  "color_stage strip staticH1 staticS1 staticH2 staticS2 numLEDs i px =
     (case px of (cr, cg, cb) \<Rightarrow>
        if static_color_enabled strip then
          (case RGBtoHSV cr cg cb of (h, s, v) \<Rightarrow>
             if gradient_enabled strip \<and> numLEDs > 1 then
               let ledIdx = i sdiv 3;
                   hDiff0 = staticH2 - staticH1;
                   hDiff1 = (if hDiff0 > 180 then hDiff0 - 360 else hDiff0);
                   hDiff = (if hDiff1 < - 180 then hDiff1 + 360 else hDiff1);
                   interpH = (staticH1 + (hDiff * ledIdx) sdiv (numLEDs - 1) + 360) smod 360;
                   interpS = staticS1 + ((staticS2 - staticS1) * ledIdx) sdiv (numLEDs - 1)
               in HSVtoRGB interpH interpS v
             else HSVtoRGB staticH1 staticS1 v)
        else if hue_shift strip \<noteq> 0 \<or> saturation strip \<noteq> 100 then
          (case RGBtoHSV cr cg cb of (h, s, v) \<Rightarrow>
             let h' = (h + hue_shift strip) smod 360;
                 s' = (if saturation strip \<noteq> 100
                       then min ((s * saturation strip) sdiv 100) 255 else s)
             in HSVtoRGB h' s' v)
        else (cr, cg, cb))"

definition brightness_stage :: "StripTransform \<Rightarrow> u8 \<times> u8 \<times> u8 \<Rightarrow> u8 \<times> u8 \<times> u8" where
  "brightness_stage strip px =
     (case px of (cr, cg, cb) \<Rightarrow>
        if brightness strip \<noteq> 100 then
          let br = (uint cr * brightness strip) sdiv 100;
              bg = (uint cg * brightness strip) sdiv 100;
              bb = (uint cb * brightness strip) sdiv 100
          in (word_of_int (min br 255), word_of_int (min bg 255), word_of_int (min bb 255))
        else (cr, cg, cb))"

definition transform_pixel ::
    "StripTransform \<Rightarrow> int \<Rightarrow> int \<Rightarrow> int \<Rightarrow> int \<Rightarrow> int \<Rightarrow> int \<Rightarrow> u8 \<times> u8 \<times> u8 \<Rightarrow> u8 \<times> u8 \<times> u8" where
  "transform_pixel strip staticH1 staticS1 staticH2 staticS2 numLEDs i px =
     brightness_stage strip
       (color_stage strip staticH1 staticS1 staticH2 staticS2 numLEDs i
          (gamma_stage strip (swap_channels (channelOrder strip) px)))"

text \<open>
  The loop \<open>for (int i = 0; i < numBytes; i += 3)\<close> over the buffer \<open>data\<close>. The source
  is handed a bare pointer and the byte count; here the buffer is a list, and a read or
  write past its end (undefined behaviour in the source) ends the run with \<open>None\<close>.
\<close>

function TransformStrip_loop ::
    "StripTransform \<Rightarrow> int \<Rightarrow> int \<Rightarrow> int \<Rightarrow> int \<Rightarrow> int \<Rightarrow> int \<Rightarrow> int \<Rightarrow> u8 list \<Rightarrow> u8 list option" where
  "TransformStrip_loop strip staticH1 staticS1 staticH2 staticS2 numLEDs numBytes i data =
     (if i < numBytes then
        (if i < 0 \<or> length data \<le> nat i + 2 then None
         else
           (case transform_pixel strip staticH1 staticS1 staticH2 staticS2 numLEDs i
                   (data ! nat i, data ! (nat i + 1), data ! (nat i + 2)) of
              (cr, cg, cb) \<Rightarrow>
                TransformStrip_loop strip staticH1 staticS1 staticH2 staticS2 numLEDs numBytes
                  (i + 3) (data[nat i := cr, nat i + 1 := cg, nat i + 2 := cb])))
      else Some data)"
  by pat_completeness auto
termination
  by (relation "measure (\<lambda>(strip, h1, s1, h2, s2, n, numBytes, i, data). nat (numBytes - i))") auto

declare TransformStrip_loop.simps [simp del]

definition TransformStrip :: "StripTransform \<Rightarrow> u8 list \<Rightarrow> int \<Rightarrow> u8 list option" where
  "TransformStrip strip data numBytes =
     (if \<not> enabled strip then Some data
      else
        let (staticH1, staticS1, staticV1) =
              (if static_color_enabled strip
               then RGBtoHSV (static_r strip) (static_g strip) (static_b strip)
               else (0, 0, 0));
            (staticH2, staticS2, staticV2) =
              (if static_color_enabled strip \<and> gradient_enabled strip
               then RGBtoHSV (gradient_r2 strip) (gradient_g2 strip) (gradient_b2 strip)
               else (0, 0, 0));
            numLEDs = numBytes sdiv 3
        in TransformStrip_loop strip staticH1 staticS1 staticH2 staticS2 numLEDs numBytes 0 data)"

text \<open>
  The hook \<open>SetTapeLedDataHook\<close> calls \<open>TransformStrip\<close> with the byte count of the
  strip, taken from this table, on a buffer of 282 bytes.
\<close>

definition TapeLedDataCount :: "int list" where
  "TapeLedDataCount = [74 * 3, 12 * 3, 12 * 3, 56 * 3, 56 * 3, 94 * 3, 12 * 3, 12 * 3, 14 * 3, 86 * 3]"

section \<open>Notions used in the statements and proofs\<close>

text \<open>
  The locals \<open>p\<close>, \<open>q\<close> and \<open>t\<close> of \<open>HSVtoRGB\<close> for a non-negative hue, written with
  the flooring division, and the three channels before the casts to \<open>uint8_t\<close>.
  \<open>HSVtoRGB_channels\<close> below proves that \<open>HSVtoRGB\<close> computes exactly these.
\<close>

definition chan_p :: "int \<Rightarrow> int \<Rightarrow> int" where
  "chan_p s v = (v * (255 - s)) div 255"

definition chan_q :: "int \<Rightarrow> int \<Rightarrow> int \<Rightarrow> int" where
  "chan_q s v r = (v * (255 - (s * r) div 60)) div 255"

definition hsv_channels :: "int \<Rightarrow> int \<Rightarrow> int \<Rightarrow> int \<times> int \<times> int" where
  "hsv_channels h s v =
     (let k = (h mod 360) div 60; r = h mod 60;
          p = chan_p s v; q = chan_q s v r; t = chan_q s v (60 - r)
      in if s = 0 then (v, v, v)
         else if k = 0 then (v, t, p)
         else if k = 1 then (q, v, p)
         else if k = 2 then (p, v, t)
         else if k = 3 then (p, q, v)
         else if k = 4 then (t, p, v)
         else (v, p, q))"

text \<open>The value component \<open>v\<close> that \<open>RGBtoHSV\<close> returns for a pixel.\<close>

definition pixel_value :: "u8 \<times> u8 \<times> u8 \<Rightarrow> int" where
  "pixel_value px = (case px of (r, g, b) \<Rightarrow> snd (snd (RGBtoHSV r g b)))"

text \<open>
  The hue and the saturation that the gradient branch of the colour stage computes for the
  LED \<open>ledIdx\<close> (the locals \<open>interpH\<close> and \<open>interpS\<close>).
\<close>

definition gradient_hue :: "int \<Rightarrow> int \<Rightarrow> int \<Rightarrow> int \<Rightarrow> int" where
  "gradient_hue staticH1 staticH2 ledIdx numLEDs =
     (let hDiff0 = staticH2 - staticH1;
          hDiff1 = (if hDiff0 > 180 then hDiff0 - 360 else hDiff0);
          hDiff = (if hDiff1 < - 180 then hDiff1 + 360 else hDiff1)
      in (staticH1 + (hDiff * ledIdx) sdiv (numLEDs - 1) + 360) smod 360)"

definition gradient_sat :: "int \<Rightarrow> int \<Rightarrow> int \<Rightarrow> int \<Rightarrow> int" where
  "gradient_sat staticS1 staticS2 ledIdx numLEDs =
     staticS1 + ((staticS2 - staticS1) * ledIdx) sdiv (numLEDs - 1)"

text \<open>
  The locals \<open>staticH1\<close>, \<open>staticS1\<close>, \<open>staticV1\<close> and \<open>staticH2\<close>, \<open>staticS2\<close>,
  \<open>staticV2\<close> as \<open>TransformStrip\<close> computes them before its loop, the colour stage and
  the whole loop body with these locals, and LED \<open>m\<close> of a buffer.
\<close>

definition staticHSV1 :: "StripTransform \<Rightarrow> int \<times> int \<times> int" where
  "staticHSV1 strip =
     (if static_color_enabled strip
      then RGBtoHSV (static_r strip) (static_g strip) (static_b strip) else (0, 0, 0))"

definition staticHSV2 :: "StripTransform \<Rightarrow> int \<times> int \<times> int" where
  "staticHSV2 strip =
     (if static_color_enabled strip \<and> gradient_enabled strip
      then RGBtoHSV (gradient_r2 strip) (gradient_g2 strip) (gradient_b2 strip) else (0, 0, 0))"

definition strip_color_stage :: "StripTransform \<Rightarrow> int \<Rightarrow> int \<Rightarrow> u8 \<times> u8 \<times> u8 \<Rightarrow> u8 \<times> u8 \<times> u8" where
  "strip_color_stage strip numLEDs i px =
     color_stage strip (fst (staticHSV1 strip)) (fst (snd (staticHSV1 strip)))
       (fst (staticHSV2 strip)) (fst (snd (staticHSV2 strip))) numLEDs i px"

definition strip_pixel :: "StripTransform \<Rightarrow> int \<Rightarrow> int \<Rightarrow> u8 \<times> u8 \<times> u8 \<Rightarrow> u8 \<times> u8 \<times> u8" where
  "strip_pixel strip numLEDs i px =
     brightness_stage strip
       (strip_color_stage strip numLEDs i
          (gamma_stage strip (swap_channels (channelOrder strip) px)))"

definition led :: "u8 list \<Rightarrow> nat \<Rightarrow> u8 \<times> u8 \<times> u8" where
  "led data m = (data ! (3 * m), data ! (3 * m + 1), data ! (3 * m + 2))"

text \<open>A pixel none of whose channels exceeds \<open>v\<close>.\<close>

definition channels_le :: "u8 \<times> u8 \<times> u8 \<Rightarrow> int \<Rightarrow> bool" where
  "channels_le px v = (case px of (r, g, b) \<Rightarrow> uint r \<le> v \<and> uint g \<le> v \<and> uint b \<le> v)"

text \<open>
  The ranges of the resolved fields of a strip, and the configurations the program can
  be in: \<open>DllMain\<close> calls \<open>InitConfig\<close> and \<open>LoadConfig\<close>, every later hook call
  runs \<open>CheckReload\<close>, each with whatever the file system shows at that moment.
\<close>

definition strip_ok :: "StripTransform \<Rightarrow> bool" where
  "strip_ok s =
     ((gradient_enabled s \<longrightarrow> static_color_enabled s) \<and>
      0 \<le> hue_shift s \<and> hue_shift s \<le> 359 \<and>
      0 \<le> saturation s \<and> saturation s \<le> 200 \<and>
      0 \<le> brightness s \<and> brightness s \<le> 200)"

inductive reachable :: "libfuns \<Rightarrow> TransformConfig \<Rightarrow> bool" for lib :: libfuns where
  init: "reachable lib (InitConfig lib)"
| load: "reachable lib c \<Longrightarrow> reachable lib (LoadConfig lib fs c)"
| check: "reachable lib c \<Longrightarrow> reachable lib (CheckReload lib fs c)"

text \<open>The file view \<open>fs\<close> with the value text of one key of one section replaced, or the key removed.\<close>

definition set_key :: "fsview \<Rightarrow> string \<Rightarrow> string \<Rightarrow> string \<Rightarrow> fsview" where
  "set_key fs section key val = fs\<lparr> ini := (ini fs)(section := (ini fs section)(key \<mapsto> val)) \<rparr>"

definition remove_key :: "fsview \<Rightarrow> string \<Rightarrow> string \<Rightarrow> fsview" where
  "remove_key fs section key = fs\<lparr> ini := (ini fs)(section := (ini fs section)(key := None)) \<rparr>"

text \<open>
  The \<open>CheckReload\<close> calls of successive hook invocations, each with the view of the
  file system at that invocation.
\<close>

definition run_hook_calls :: "libfuns \<Rightarrow> TransformConfig \<Rightarrow> fsview list \<Rightarrow> TransformConfig" where
  "run_hook_calls lib c fss = foldl (\<lambda>c fs. CheckReload lib fs c) c fss"

text \<open>\<open>HSVtoRGB\<close> followed by \<open>RGBtoHSV\<close>.\<close>

definition hsv_roundtrip :: "int \<Rightarrow> int \<Rightarrow> int \<Rightarrow> int \<times> int \<times> int" where
  "hsv_roundtrip h s v = (case HSVtoRGB h s v of (r, g, b) \<Rightarrow> RGBtoHSV r g b)"

text \<open>
  The hue that \<open>RGBtoHSV\<close> computes, as a function of the three channel values (the body of
  \<open>RGBtoHSV\<close> restricted to its first component).
\<close>

definition rgb_hue :: "int \<Rightarrow> int \<Rightarrow> int \<Rightarrow> int" where
  "rgb_hue R G B =
     (let maxVal = max (max R G) B;
          minVal = min (min R G) B;
          delta = maxVal - minVal
      in if maxVal = 0 then 0
         else if delta = 0 then 0
         else
           let h = (if maxVal = R then (60 * (G - B)) sdiv delta
                    else if maxVal = G then 120 + (60 * (B - R)) sdiv delta
                    else 240 + (60 * (R - G)) sdiv delta)
           in if h < 0 then h + 360 else h)"

text \<open>
  The hue offset inside a 60-degree sector that \<open>RGBtoHSV\<close> computes from a channel \<open>c\<close>
  lying between the minimum \<open>p\<close> and the maximum \<open>v\<close>.
\<close>

definition hue_step :: "int \<Rightarrow> int \<Rightarrow> int \<Rightarrow> int" where
  "hue_step c p v = (60 * (c - p)) div (v - p)"

section \<open>Sample inputs\<close>

text \<open>
  One choice of the library functions, for running the model on concrete inputs: a number
  text converts to the value of its leading decimal digits, every float text to
  \<open>1.0f\<close>, and the gamma curve is the identity.
\<close>

definition dec_number :: "string \<Rightarrow> nat" where
  "dec_number s =
     foldl (\<lambda>acc c. acc * 10 + (of_char c - 48)) 0
       (takeWhile (\<lambda>c. 48 \<le> (of_char c :: nat) \<and> (of_char c :: nat) \<le> 57) s)"

definition sample_lib :: libfuns where
  "sample_lib =
     \<lparr> atof_float = (\<lambda>buf. f_one),
       sprintf_4f = (\<lambda>x. ''1.0000''),
       profile_int = (\<lambda>s. word_of_nat (dec_number s)),
       gamma_val = (\<lambda>gamma i. word_of_int i) \<rparr>"

text \<open>
  A readable file with the given \<open>(section, key, value)\<close> entries and the given last write
  time.
\<close>

definition ini_of :: "(string \<times> string \<times> string) list \<Rightarrow> string \<Rightarrow> string \<Rightarrow> string option" where
  "ini_of entries section key = map_of (map (\<lambda>(s, k, v). ((s, k), v)) entries) (section, key)"

definition sample_fs :: "32 word \<Rightarrow> (string \<times> string \<times> string) list \<Rightarrow> fsview" where
  "sample_fs t entries =
     \<lparr> attr_ok = True, open_ok = True,
       write_time = \<lparr> dwLowDateTime = t, dwHighDateTime = 0 \<rparr>,
       ini = ini_of entries \<rparr>"

text \<open>An active strip with the static colour \<open>8000FF\<close> and nothing else changed.\<close>

definition violet_strip :: StripTransform where
  "violet_strip = (identity_strip sample_lib)
     \<lparr> enabled := True, static_color_enabled := True,
       static_r := 0x80, static_g := 0x00, static_b := 0xFF \<rparr>"

text \<open>
  Sample files: a gradient colour without a static colour, a static colour with a gradient
  colour, a hue shift of 370 degrees, and three files that set the global brightness,
  two of them with the same last write time and different contents.
\<close>

definition gradient_only_fs :: fsview where
  "gradient_only_fs = sample_fs 1 [(''title'', ''gradient_color'', ''0000FF'')]"

definition gradient_fs :: fsview where
  "gradient_fs = sample_fs 1 [(''left_wing'', ''static_color'', ''0000FF''),
                              (''left_wing'', ''gradient_color'', ''FF00FF'')]"

definition hue_370_fs :: fsview where
  "hue_370_fs = sample_fs 1 [(''title'', ''hue_shift'', ''370'')]"

definition bright_80_fs :: fsview where
  "bright_80_fs = sample_fs 1 [(''global'', ''brightness'', ''80'')]"

definition bright_50_same_time_fs :: fsview where
  "bright_50_same_time_fs = sample_fs 1 [(''global'', ''brightness'', ''50'')]"

definition bright_50_later_fs :: fsview where
  "bright_50_later_fs = sample_fs 2 [(''global'', ''brightness'', ''50'')]"

text \<open>The configuration after \<open>InitConfig\<close> and \<open>LoadConfig\<close> on the file with brightness 80.\<close>

definition loaded_80 :: TransformConfig where
  "loaded_80 = LoadConfig sample_lib bright_80_fs (InitConfig sample_lib)"

section \<open>Truncating division on non-negative operands\<close>

lemma sdiv_nonneg_eq: "0 \<le> a \<Longrightarrow> 0 < b \<Longrightarrow> a sdiv b = a div (b::int)"
  by (simp add: signed_divide_int_def sgn_if)

lemma smod_nonneg_eq: "0 \<le> a \<Longrightarrow> 0 < b \<Longrightarrow> a smod b = a mod (b::int)"
  by (simp add: signed_modulo_int_def sgn_if)

lemma uint_u8_of_int: "0 \<le> x \<Longrightarrow> x < 256 \<Longrightarrow> uint (word_of_int x :: u8) = x"
  by (simp add: uint_word_of_int take_bit_int_eq_self)

lemma scale_bounds:
  assumes "0 \<le> v" "0 \<le> k" "k \<le> (255::int)"
  shows "0 \<le> (v * k) div 255 \<and> (v * k) div 255 \<le> v"
proof -
  have a: "0 \<le> (v * k) div 255" using assms by (simp add: pos_imp_zdiv_nonneg_iff)
  have "v * k \<le> v * 255" using assms by (simp add: mult_left_mono)
  then have "(v * k) div 255 \<le> (v * 255) div 255" by (rule zdiv_mono1) simp
  then show ?thesis using a by simp
qed

lemma frac_bounds:
  assumes "0 \<le> s" "0 \<le> r" "r \<le> (60::int)"
  shows "0 \<le> (s * r) div 60 \<and> (s * r) div 60 \<le> s"
proof -
  have a: "0 \<le> (s * r) div 60" using assms by (simp add: pos_imp_zdiv_nonneg_iff)
  have "s * r \<le> s * 60" using assms by (simp add: mult_left_mono)
  then have "(s * r) div 60 \<le> (s * 60) div 60" by (rule zdiv_mono1) simp
  then show ?thesis using a by simp
qed

lemma chan_q_bounds:
  assumes "0 \<le> s" "s \<le> 255" "0 \<le> v" "0 \<le> r" "r \<le> 60"
  shows "chan_p s v \<le> chan_q s v r" "chan_q s v r \<le> v" "0 \<le> chan_p s v"
proof -
  from frac_bounds[OF assms(1,4,5)] have f: "0 \<le> (s * r) div 60" "(s * r) div 60 \<le> s" by simp_all
  have "v * (255 - s) \<le> v * (255 - (s * r) div 60)"
    using f assms by (intro mult_left_mono) simp_all
  then show "chan_p s v \<le> chan_q s v r"
    unfolding chan_p_def chan_q_def by (rule zdiv_mono1) simp
  show "chan_q s v r \<le> v" unfolding chan_q_def
    using scale_bounds[of v "255 - (s * r) div 60"] f assms by simp
  show "0 \<le> chan_p s v" unfolding chan_p_def
    using scale_bounds[of v "255 - s"] assms by simp
qed

lemma HSVtoRGB_channels:
  assumes "0 \<le> h" "0 \<le> s" "s \<le> 255" "0 \<le> v"
  shows "HSVtoRGB h s v =
     (case hsv_channels h s v of (a, b, c) \<Rightarrow> (word_of_int a, word_of_int b, word_of_int c))"
proof (cases "s = 0")
  case True
  then show ?thesis by (simp add: HSVtoRGB_def hsv_channels_def)
next
  case False
  have m: "h smod 360 = h mod 360" using assms by (simp add: smod_nonneg_eq)
  have m0: "0 \<le> h mod 360" by simp
  have r: "(h mod 360) smod 60 = h mod 60"
    using m0 by (simp add: smod_nonneg_eq mod_mod_cancel)
  have k: "(h mod 360) sdiv 60 = (h mod 360) div 60" using m0 by (simp add: sdiv_nonneg_eq)
  have r0: "0 \<le> h mod 60" "h mod 60 < 60" by simp_all
  have e1: "(s * (h mod 60)) sdiv 60 = (s * (h mod 60)) div 60"
    using assms r0 by (simp add: sdiv_nonneg_eq)
  have e2: "(s * (60 - h mod 60)) sdiv 60 = (s * (60 - h mod 60)) div 60"
    using assms r0 by (intro sdiv_nonneg_eq) simp_all
  have f1: "(s * (h mod 60)) div 60 \<le> s" using frac_bounds[of s "h mod 60"] assms r0 by simp
  have f2: "(s * (60 - h mod 60)) div 60 \<le> s" using frac_bounds[of s "60 - h mod 60"] assms r0 by simp
  have e3: "(v * (255 - s)) sdiv 255 = (v * (255 - s)) div 255"
    using assms by (intro sdiv_nonneg_eq) simp_all
  have e4: "(v * (255 - (s * (h mod 60)) div 60)) sdiv 255 = (v * (255 - (s * (h mod 60)) div 60)) div 255"
    using assms f1 by (intro sdiv_nonneg_eq) simp_all
  have e5: "(v * (255 - (s * (60 - h mod 60)) div 60)) sdiv 255 = (v * (255 - (s * (60 - h mod 60)) div 60)) div 255"
    using assms f2 by (intro sdiv_nonneg_eq) simp_all
  show ?thesis
    using False
    by (simp add: HSVtoRGB_def hsv_channels_def Let_def m r k e1 e2 e3 e4 e5 chan_p_def chan_q_def)
qed

lemma chan_p_zero: "chan_p 0 v = v"
  by (simp add: chan_p_def)

lemma triple_bounds:
  assumes "p \<le> x" "x \<le> v" "p \<le> y" "y \<le> (v::int)"
  shows "max (max v x) p = v" "max (max x v) p = v" "max (max p v) x = v"
        "max (max p x) v = v" "max (max v p) x = v"
        "min (min v x) p = p" "min (min x v) p = p" "min (min p v) x = p"
        "min (min p x) v = p" "min (min v p) x = p"
  using assms by simp_all

lemma hsv_channels_bounds:
  assumes "0 \<le> s" "s \<le> 255" "0 \<le> v" "hsv_channels h s v = (a, b, c)"
  shows "chan_p s v \<le> a \<and> a \<le> v \<and> chan_p s v \<le> b \<and> b \<le> v \<and> chan_p s v \<le> c \<and> c \<le> v \<and>
         max (max a b) c = v \<and> min (min a b) c = chan_p s v \<and> 0 \<le> chan_p s v"
proof (cases "s = 0")
  case True
  then have "hsv_channels h s v = (v, v, v)" by (simp add: hsv_channels_def)
  with assms(4) have "a = v" "b = v" "c = v" by simp_all
  then show ?thesis using True assms(3) by (simp add: chan_p_zero)
next
  case False
  define p q t where "p = chan_p s v" and "q = chan_q s v (h mod 60)"
    and "t = chan_q s v (60 - h mod 60)"
  have r0: "0 \<le> h mod 60" "h mod 60 \<le> 60" "0 \<le> 60 - h mod 60" "60 - h mod 60 \<le> 60"
    by simp_all
  have q: "p \<le> q" "q \<le> v" "0 \<le> p"
    using chan_q_bounds[OF assms(1,2,3) r0(1,2)] by (simp_all add: p_def q_def)
  have t: "p \<le> t" "t \<le> v"
    using chan_q_bounds[OF assms(1,2,3) r0(3,4)] by (simp_all add: p_def t_def)
  have pv: "p \<le> v" using q by linarith
  have "hsv_channels h s v = (v, t, p) \<or> hsv_channels h s v = (q, v, p) \<or>
        hsv_channels h s v = (p, v, t) \<or> hsv_channels h s v = (p, q, v) \<or>
        hsv_channels h s v = (t, p, v) \<or> hsv_channels h s v = (v, p, q)"
    using False by (simp add: hsv_channels_def Let_def p_def q_def t_def)
  then have "(a = v \<and> b = t \<and> c = p) \<or> (a = q \<and> b = v \<and> c = p) \<or>
        (a = p \<and> b = v \<and> c = t) \<or> (a = p \<and> b = q \<and> c = v) \<or>
        (a = t \<and> b = p \<and> c = v) \<or> (a = v \<and> b = p \<and> c = q)"
    unfolding assms(4) by simp
  then show ?thesis
    unfolding p_def[symmetric]
    using triple_bounds[OF t(1) t(2) q(1) q(2)] triple_bounds[OF q(1) q(2) t(1) t(2)] q t pv
    by (elim disjE conjE) simp_all
qed

lemma HSVtoRGB_uint:
  assumes "0 \<le> h" "0 \<le> s" "s \<le> 255" "0 \<le> v" "v \<le> 255"
      and "HSVtoRGB h s v = (r, g, b)"
  shows "hsv_channels h s v = (uint r, uint g, uint b)"
proof -
  obtain a b' c where e: "hsv_channels h s v = (a, b', c)" by (cases "hsv_channels h s v") auto
  from hsv_channels_bounds[OF assms(2,3,4) e]
  have b: "0 \<le> a" "a < 256" "0 \<le> b'" "b' < 256" "0 \<le> c" "c < 256" using assms(5) by auto
  from HSVtoRGB_channels[OF assms(1-4)] e assms(6)
  have "r = word_of_int a" "g = word_of_int b'" "b = word_of_int c" by simp_all
  then show ?thesis using b e by (simp add: uint_u8_of_int)
qed

lemma HSVtoRGB_le:
  assumes "0 \<le> h" "0 \<le> s" "s \<le> 255" "0 \<le> v" "v \<le> 255"
      and "HSVtoRGB h s v = (r, g, b)"
  shows "uint r \<le> v \<and> uint g \<le> v \<and> uint b \<le> v"
  using hsv_channels_bounds[OF assms(2,3,4) HSVtoRGB_uint[OF assms]] by simp

lemma pixel_value_max: "pixel_value (r, g, b) = max (max (uint r) (uint g)) (uint b)"
  by (simp add: pixel_value_def RGBtoHSV_def Let_def)

lemma HSVtoRGB_value:
  assumes "0 \<le> h" "0 \<le> s" "s \<le> 255" "0 \<le> v" "v \<le> 255"
  shows "pixel_value (HSVtoRGB h s v) = v"
proof -
  obtain r g b where e: "HSVtoRGB h s v = (r, g, b)" by (cases "HSVtoRGB h s v") auto
  from hsv_channels_bounds[OF assms(2,3,4) HSVtoRGB_uint[OF assms e]]
  show ?thesis unfolding e pixel_value_max by simp
qed

lemma sdiv_neg_eq: "a < 0 \<Longrightarrow> 0 < b \<Longrightarrow> a sdiv b = - ((- a) div (b::int))"
  by (simp add: signed_divide_int_def sgn_if)

lemma abs_sdiv_le:
  assumes "\<bar>a\<bar> \<le> k * d" "0 < (d::int)"
  shows "\<bar>a sdiv d\<bar> \<le> k"
proof -
  have "\<bar>a sdiv d\<bar> = \<bar>a\<bar> div d"
  proof (cases "0 \<le> a")
    case True
    then have "0 \<le> a div d" using assms(2) by (simp add: pos_imp_zdiv_nonneg_iff)
    then show ?thesis using True assms(2) by (simp add: sdiv_nonneg_eq)
  next
    case False
    then have "0 \<le> (- a) div d" using assms(2) by (simp add: pos_imp_zdiv_nonneg_iff)
    then show ?thesis using False assms(2) by (simp add: sdiv_neg_eq)
  qed
  also have "\<dots> \<le> (k * d) div d" using assms by (intro zdiv_mono1) simp_all
  also have "\<dots> = k" using assms(2) by simp
  finally show ?thesis .
qed

lemma hue_term_bounds:
  assumes "\<bar>x\<bar> \<le> d" "0 < (d::int)"
  shows "- 60 \<le> (60 * x) sdiv d \<and> (60 * x) sdiv d \<le> 60"
proof -
  have "\<bar>60 * x\<bar> \<le> 60 * d" using assms by (simp add: abs_mult)
  from abs_sdiv_le[OF this assms(2)] show ?thesis by linarith
qed

lemma RGBtoHSV_range:
  assumes "RGBtoHSV r g b = (h, s, v)"
  shows "0 \<le> h \<and> h \<le> 359 \<and> 0 \<le> s \<and> s \<le> 255 \<and> 0 \<le> v \<and> v \<le> 255"
proof -
  define mx mn where "mx = max (max (uint r) (uint g)) (uint b)"
    and "mn = min (min (uint r) (uint g)) (uint b)"
  define h0 where "h0 = (if mx = uint r then (60 * (uint g - uint b)) sdiv (mx - mn)
                         else if mx = uint g then 120 + (60 * (uint b - uint r)) sdiv (mx - mn)
                         else 240 + (60 * (uint r - uint g)) sdiv (mx - mn))"
  have rng: "0 \<le> uint r" "uint r \<le> 255" "0 \<le> uint g" "uint g \<le> 255" "0 \<le> uint b" "uint b \<le> 255"
    using uint_lt2p[of r] uint_lt2p[of g] uint_lt2p[of b] by simp_all
  have vr: "0 \<le> mx" "mx \<le> 255" using rng by (simp_all add: mx_def le_max_iff_disj)
  have d: "0 \<le> mx - mn" "mx - mn \<le> mx" using rng by (auto simp: mx_def mn_def)
  have unf: "RGBtoHSV r g b =
      (if mx = 0 then (0, 0, mx)
       else if mx - mn = 0 then (0, ((mx - mn) * 255) sdiv mx, mx)
       else (if h0 < 0 then h0 + 360 else h0, ((mx - mn) * 255) sdiv mx, mx))"
    unfolding RGBtoHSV_def Let_def mx_def[symmetric] mn_def[symmetric] h0_def by simp
  show ?thesis
  proof (cases "mx = 0")
    case True
    then show ?thesis using assms unfolding unf by simp
  next
    case mx0: False
    then have mxp: "0 < mx" using vr by simp
    have "((mx - mn) * 255) sdiv mx = ((mx - mn) * 255) div mx"
      using d mxp by (intro sdiv_nonneg_eq) simp_all
    moreover have "0 \<le> ((mx - mn) * 255) div mx" using d mxp by (simp add: pos_imp_zdiv_nonneg_iff)
    moreover have "((mx - mn) * 255) div mx \<le> (mx * 255) div mx"
      using d mxp by (intro zdiv_mono1) simp_all
    ultimately have sr: "0 \<le> ((mx - mn) * 255) sdiv mx" "((mx - mn) * 255) sdiv mx \<le> 255"
      using mxp by simp_all
    show ?thesis
    proof (cases "mx - mn = 0")
      case True
      then show ?thesis using assms mx0 sr vr unfolding unf by auto
    next
      case False
      then have dp: "0 < mx - mn" using d by simp
      have a1: "\<bar>uint g - uint b\<bar> \<le> mx - mn" "\<bar>uint b - uint r\<bar> \<le> mx - mn"
        "\<bar>uint r - uint g\<bar> \<le> mx - mn"
        by (auto simp: mx_def mn_def)
      note hb = hue_term_bounds[OF a1(1) dp] hue_term_bounds[OF a1(2) dp] hue_term_bounds[OF a1(3) dp]
      have "- 60 \<le> h0 \<and> h0 \<le> 300" using hb unfolding h0_def by auto
      then have "0 \<le> (if h0 < 0 then h0 + 360 else h0) \<and> (if h0 < 0 then h0 + 360 else h0) \<le> 359"
        by auto
      then show ?thesis using assms mx0 False sr vr unfolding unf by auto
    qed
  qed
qed

section \<open>The colour stage under a static colour\<close>

lemma sdiv_interp_bounds:
  assumes "0 < (d::int)" "0 \<le> j" "j \<le> d"
  shows "min 0 x \<le> (x * j) sdiv d \<and> (x * j) sdiv d \<le> max 0 x"
proof -
  have pos: "0 \<le> (y * j) div d \<and> (y * j) div d \<le> y" if "0 \<le> y" for y
  proof -
    have "y * j \<le> y * d" using that assms by (intro mult_left_mono) simp_all
    then have "(y * j) div d \<le> (y * d) div d" by (rule zdiv_mono1) (use assms in simp)
    moreover have "(y * d) div d = y" using assms by simp
    moreover have "0 \<le> (y * j) div d" using that assms by (simp add: pos_imp_zdiv_nonneg_iff)
    ultimately show ?thesis by simp
  qed
  show ?thesis
  proof (cases "0 \<le> x * j")
    case True
    show ?thesis
    proof (cases "0 \<le> x")
      case x: True
      then show ?thesis using pos[OF x] True assms by (simp add: sdiv_nonneg_eq)
    next
      case False
      then have "x * j \<le> 0" using assms by (simp add: mult_nonpos_nonneg)
      then have "x * j = 0" using True by simp
      then show ?thesis using False by simp
    qed
  next
    case False
    then have neg: "x * j < 0" by simp
    then have xn: "x < 0" using assms by (metis mult_nonneg_nonneg not_le)
    define y where "y = - x"
    have y: "0 \<le> y" using xn by (simp add: y_def)
    have e: "(x * j) sdiv d = - ((y * j) div d)"
      using neg assms by (simp add: sdiv_neg_eq y_def)
    show ?thesis using pos[OF y] e xn by (simp add: y_def)
  qed
qed



lemma color_stage_static:
  assumes "static_color_enabled strip"
  shows "color_stage strip H1 S1 H2 S2 numLEDs i px =
     (if gradient_enabled strip \<and> numLEDs > 1
      then HSVtoRGB (gradient_hue H1 H2 (i sdiv 3) numLEDs) (gradient_sat S1 S2 (i sdiv 3) numLEDs)
             (pixel_value px)
      else HSVtoRGB H1 S1 (pixel_value px))"
  using assms
  by (cases px; cases "RGBtoHSV (fst px) (fst (snd px)) (snd (snd px))")
     (simp add: color_stage_def pixel_value_def gradient_hue_def gradient_sat_def Let_def)

lemma pixel_value_range: "0 \<le> pixel_value px \<and> pixel_value px \<le> 255"
proof -
  obtain r g b where px: "px = (r, g, b)" by (cases px) auto
  obtain h s v where hsv: "RGBtoHSV r g b = (h, s, v)" by (cases "RGBtoHSV r g b") auto
  show ?thesis using RGBtoHSV_range[OF hsv] by (simp add: px pixel_value_def hsv)
qed

lemma ledIdx_bounds:
  assumes "0 \<le> (i::int)" "i < 3 * n"
  shows "0 \<le> i sdiv 3 \<and> i sdiv 3 \<le> n - 1"
proof -
  have "i sdiv 3 = i div 3" using assms by (simp add: sdiv_nonneg_eq)
  then show ?thesis using assms by presburger
qed

lemma gradient_sat_range:
  assumes "0 \<le> S1" "S1 \<le> 255" "0 \<le> S2" "S2 \<le> 255" "1 < n" "0 \<le> j" "j \<le> n - 1"
  shows "0 \<le> gradient_sat S1 S2 j n \<and> gradient_sat S1 S2 j n \<le> 255"
  unfolding gradient_sat_def
  using sdiv_interp_bounds[of "n - 1" j "S2 - S1"] assms by auto

lemma gradient_hue_nonneg:
  assumes "0 \<le> H1" "H1 \<le> 359" "0 \<le> H2" "H2 \<le> 359" "1 < n" "0 \<le> j" "j \<le> n - 1"
  shows "0 \<le> gradient_hue H1 H2 j n"
proof -
  define hDiff where "hDiff = (if (if H2 - H1 > 180 then H2 - H1 - 360 else H2 - H1) < - 180
       then (if H2 - H1 > 180 then H2 - H1 - 360 else H2 - H1) + 360
       else (if H2 - H1 > 180 then H2 - H1 - 360 else H2 - H1))"
  have "- 180 \<le> hDiff \<and> hDiff \<le> 180" using assms(1-4) by (auto simp: hDiff_def)
  then have "- 180 \<le> (hDiff * j) sdiv (n - 1)"
    using sdiv_interp_bounds[of "n - 1" j hDiff] assms(5-7) by auto
  then have "0 \<le> H1 + (hDiff * j) sdiv (n - 1) + 360" using assms(1) by simp
  then have "0 \<le> (H1 + (hDiff * j) sdiv (n - 1) + 360) smod 360" by (simp add: smod_nonneg_eq)
  then show ?thesis by (simp add: gradient_hue_def Let_def hDiff_def)
qed

lemma color_stage_static_value:
  assumes "static_color_enabled strip"
      and "RGBtoHSV (static_r strip) (static_g strip) (static_b strip) = (H1, S1, V1)"
      and "gradient_enabled strip \<longrightarrow>
             RGBtoHSV (gradient_r2 strip) (gradient_g2 strip) (gradient_b2 strip) = (H2, S2, V2)"
      and "0 \<le> i" "i < 3 * numLEDs"
  shows "pixel_value (color_stage strip H1 S1 H2 S2 numLEDs i px) = pixel_value px"
proof -
  note r1 = RGBtoHSV_range[OF assms(2)]
  note rv = pixel_value_range[of px]
  show ?thesis
  proof (cases "gradient_enabled strip \<and> numLEDs > 1")
    case True
    then have g: "RGBtoHSV (gradient_r2 strip) (gradient_g2 strip) (gradient_b2 strip) = (H2, S2, V2)"
      using assms(3) by simp
    note r2 = RGBtoHSV_range[OF g]
    from True have n: "1 < numLEDs" by simp
    note j = ledIdx_bounds[OF assms(4,5)]
    have hn: "0 \<le> gradient_hue H1 H2 (i sdiv 3) numLEDs"
      using gradient_hue_nonneg[of H1 H2 numLEDs "i sdiv 3"] r1 r2 n j by simp
    have sn: "0 \<le> gradient_sat S1 S2 (i sdiv 3) numLEDs \<and> gradient_sat S1 S2 (i sdiv 3) numLEDs \<le> 255"
      using gradient_sat_range[of S1 S2 numLEDs "i sdiv 3"] r1 r2 n j by simp
    show ?thesis
      unfolding color_stage_static[OF assms(1)] if_P[OF True]
      using HSVtoRGB_value[OF hn] sn rv by simp
  next
    case False
    show ?thesis
      unfolding color_stage_static[OF assms(1)] if_not_P[OF False]
      using HSVtoRGB_value[of H1 S1 "pixel_value px"] r1 rv by simp
  qed
qed

section \<open>What the loop leaves in the buffer\<close>

lemma TransformStrip_loop_result:
  assumes "3 * n \<le> length data" "k \<le> n"
  shows "\<exists>out. TransformStrip_loop strip h1 s1 h2 s2 numLEDs (int (3 * n)) (int (3 * k)) data = Some out \<and>
           length out = length data \<and>
           (\<forall>j. j < 3 * k \<or> 3 * n \<le> j \<longrightarrow> out ! j = data ! j) \<and>
           (\<forall>m. k \<le> m \<and> m < n \<longrightarrow>
              (out ! (3 * m), out ! (3 * m + 1), out ! (3 * m + 2)) =
              transform_pixel strip h1 s1 h2 s2 numLEDs (int (3 * m))
                (data ! (3 * m), data ! (3 * m + 1), data ! (3 * m + 2)))"
  using assms
proof (induction "n - k" arbitrary: k data)
  case 0
  then have "k = n" by simp
  then show ?case by (auto simp: TransformStrip_loop.simps)
next
  case (Suc d)
  then have kn: "k < n" by simp
  obtain cr cg cb where px:
    "transform_pixel strip h1 s1 h2 s2 numLEDs (int (3 * k))
       (data ! (3 * k), data ! (3 * k + 1), data ! (3 * k + 2)) = (cr, cg, cb)"
    by (metis prod_cases3)
  define data1 where "data1 = data[3 * k := cr, 3 * k + 1 := cg, 3 * k + 2 := cb]"
  have len1: "length data1 = length data" by (simp add: data1_def)
  have nk: "nat (3 * int k) = 3 * k" by (simp add: nat_mult_distrib)
  have step: "TransformStrip_loop strip h1 s1 h2 s2 numLEDs (int (3 * n)) (int (3 * k)) data =
              TransformStrip_loop strip h1 s1 h2 s2 numLEDs (int (3 * n)) (int (3 * Suc k)) data1"
    using kn Suc.prems(1) px
    by (subst TransformStrip_loop.simps) (simp add: data1_def nk add.commute)
  have "d = n - Suc k" using Suc.hyps(2) by simp
  from Suc.hyps(1)[OF this, of data1] Suc.prems(1) kn len1
  obtain out where out: "TransformStrip_loop strip h1 s1 h2 s2 numLEDs (int (3 * n)) (int (3 * Suc k)) data1 = Some out"
    and lo: "length out = length data1"
    and keep: "\<And>j. j < 3 * Suc k \<or> 3 * n \<le> j \<Longrightarrow> out ! j = data1 ! j"
    and rest: "\<And>m. Suc k \<le> m \<Longrightarrow> m < n \<Longrightarrow>
              (out ! (3 * m), out ! (3 * m + 1), out ! (3 * m + 2)) =
              transform_pixel strip h1 s1 h2 s2 numLEDs (int (3 * m))
                (data1 ! (3 * m), data1 ! (3 * m + 1), data1 ! (3 * m + 2))"
    by auto
  have lk: "3 * k + 2 < length data" using kn Suc.prems(1) by simp
  have a: "out ! j = data ! j" if "j < 3 * k \<or> 3 * n \<le> j" for j
    using keep[of j] that kn by (auto simp: data1_def)
  have b: "(out ! (3 * m), out ! (3 * m + 1), out ! (3 * m + 2)) =
              transform_pixel strip h1 s1 h2 s2 numLEDs (int (3 * m))
                (data ! (3 * m), data ! (3 * m + 1), data ! (3 * m + 2))" if "k \<le> m" "m < n" for m
  proof (cases "m = k")
    case True
    have "out ! (3 * k) = cr" "out ! (3 * k + 1) = cg" "out ! (3 * k + 2) = cb"
      using keep[of "3 * k"] keep[of "3 * k + 1"] keep[of "3 * k + 2"] lk
      by (simp_all add: data1_def)
    then show ?thesis using True px by simp
  next
    case False
    then have m: "Suc k \<le> m" using that by simp
    have "data1 ! (3 * m) = data ! (3 * m)" "data1 ! (3 * m + 1) = data ! (3 * m + 1)"
      "data1 ! (3 * m + 2) = data ! (3 * m + 2)"
      using m by (simp_all add: data1_def)
    then show ?thesis using rest[OF m that(2)] by simp
  qed
  show ?case unfolding step out using lo len1 a b by auto
qed

lemma TransformStrip_enabled:
  assumes "enabled strip"
  shows "TransformStrip strip data numBytes =
     TransformStrip_loop strip (fst (staticHSV1 strip)) (fst (snd (staticHSV1 strip)))
       (fst (staticHSV2 strip)) (fst (snd (staticHSV2 strip))) (numBytes sdiv 3) numBytes 0 data"
  using assms
  by (simp add: TransformStrip_def staticHSV1_def staticHSV2_def Let_def split: prod.splits)

lemma TransformStrip_result:
  assumes "enabled strip" "3 * n \<le> length data"
  shows "\<exists>out. TransformStrip strip data (int (3 * n)) = Some out \<and>
           length out = length data \<and>
           (\<forall>j. 3 * n \<le> j \<longrightarrow> out ! j = data ! j) \<and>
           (\<forall>m. m < n \<longrightarrow> led out m = strip_pixel strip (int n) (int (3 * m)) (led data m))"
proof -
  have n: "int (3 * n) sdiv 3 = int n" by (simp add: sdiv_nonneg_eq)
  from TransformStrip_loop_result[OF assms(2), of 0 strip
      "fst (staticHSV1 strip)" "fst (snd (staticHSV1 strip))"
      "fst (staticHSV2 strip)" "fst (snd (staticHSV2 strip))" "int n"]
  show ?thesis
    unfolding TransformStrip_enabled[OF assms(1)] n
    by (auto simp: led_def strip_pixel_def strip_color_stage_def transform_pixel_def)
qed

lemma TransformStrip_loop_cong:
  assumes "\<And>j px. transform_pixel s1 a1 b1 c1 d1 n j px = transform_pixel s2 a2 b2 c2 d2 n j px"
  shows "TransformStrip_loop s1 a1 b1 c1 d1 n numBytes i data =
         TransformStrip_loop s2 a2 b2 c2 d2 n numBytes i data"
proof (induction "nat (numBytes - i)" arbitrary: i data rule: less_induct)
  case less
  show ?case
  proof (cases "i < numBytes \<and> \<not> (i < 0 \<or> length data \<le> nat i + 2)")
    case True
    obtain cr cg cb where px: "transform_pixel s2 a2 b2 c2 d2 n i
                   (data ! nat i, data ! (nat i + 1), data ! (nat i + 2)) = (cr, cg, cb)"
      by (metis prod_cases3)
    have "nat (numBytes - (i + 3)) < nat (numBytes - i)" using True by simp
    from less[OF this]
    have ih: "TransformStrip_loop s1 a1 b1 c1 d1 n numBytes (i + 3)
           (data[nat i := cr, nat i + 1 := cg, nat i + 2 := cb]) =
         TransformStrip_loop s2 a2 b2 c2 d2 n numBytes (i + 3)
           (data[nat i := cr, nat i + 1 := cg, nat i + 2 := cb])" .
    show ?thesis
      by (subst TransformStrip_loop.simps, subst (2) TransformStrip_loop.simps)
         (use True px ih in \<open>simp add: assms\<close>)
  next
    case False
    then show ?thesis
      by (subst TransformStrip_loop.simps, subst (2) TransformStrip_loop.simps) auto
  qed
qed

section \<open>Static colour, channel bounds\<close>

lemma staticHSV_props:
  assumes "static_color_enabled strip"
  shows "RGBtoHSV (static_r strip) (static_g strip) (static_b strip) =
           (fst (staticHSV1 strip), fst (snd (staticHSV1 strip)), snd (snd (staticHSV1 strip)))"
    and "gradient_enabled strip \<longrightarrow>
           RGBtoHSV (gradient_r2 strip) (gradient_g2 strip) (gradient_b2 strip) =
           (fst (staticHSV2 strip), fst (snd (staticHSV2 strip)), snd (snd (staticHSV2 strip)))"
  using assms by (simp_all add: staticHSV1_def staticHSV2_def)

lemma strip_color_stage_value:
  assumes "static_color_enabled strip" "0 \<le> i" "i < 3 * numLEDs"
  shows "pixel_value (strip_color_stage strip numLEDs i px) = pixel_value px"
  unfolding strip_color_stage_def
  by (rule color_stage_static_value[OF assms(1) staticHSV_props[OF assms(1)] assms(2,3)])

lemma brightness_stage_100: "brightness strip = 100 \<Longrightarrow> brightness_stage strip px = px"
  by (cases px) (simp add: brightness_stage_def)

lemma HSVtoRGB_channels_le:
  assumes "0 \<le> h" "0 \<le> s" "s \<le> 255" "0 \<le> v" "v \<le> 255"
  shows "channels_le (HSVtoRGB h s v) v"
proof -
  obtain r g b where e: "HSVtoRGB h s v = (r, g, b)" by (metis prod_cases3)
  show ?thesis using HSVtoRGB_le[OF assms e] by (simp add: channels_le_def e)
qed

lemma channels_le_self: "channels_le px (pixel_value px)"
  by (cases px) (auto simp: channels_le_def pixel_value_max)

lemma color_stage_hue_sat:
  assumes "\<not> static_color_enabled strip" "hue_shift strip \<noteq> 0 \<or> saturation strip \<noteq> 100"
      and "RGBtoHSV cr cg cb = (h, s, v)"
  shows "color_stage strip H1 S1 H2 S2 numLEDs i (cr, cg, cb) =
     HSVtoRGB ((h + hue_shift strip) smod 360)
       (if saturation strip \<noteq> 100 then min ((s * saturation strip) sdiv 100) 255 else s) v"
  using assms by (auto simp: color_stage_def Let_def)

lemma color_stage_le:
  assumes "static_color_enabled strip \<or> (0 \<le> hue_shift strip \<and> 0 \<le> saturation strip)"
      and "0 \<le> i" "i < 3 * numLEDs"
  shows "channels_le (strip_color_stage strip numLEDs i px) (pixel_value px)"
proof (cases "static_color_enabled strip")
  case True
  have "channels_le (strip_color_stage strip numLEDs i px)
          (pixel_value (strip_color_stage strip numLEDs i px))"
    by (rule channels_le_self)
  then show ?thesis by (simp add: strip_color_stage_value[OF True assms(2,3)])
next
  case False
  then have hs: "0 \<le> hue_shift strip" "0 \<le> saturation strip" using assms(1) by simp_all
  obtain cr cg cb where px: "px = (cr, cg, cb)" by (metis prod_cases3)
  obtain h s v where hsv: "RGBtoHSV cr cg cb = (h, s, v)" by (metis prod_cases3)
  note r = RGBtoHSV_range[OF hsv]
  have v: "pixel_value px = v" by (simp add: px pixel_value_def hsv)
  show ?thesis
  proof (cases "hue_shift strip \<noteq> 0 \<or> saturation strip \<noteq> 100")
    case True
    have h0: "0 \<le> (h + hue_shift strip) smod 360"
      using r hs by (simp add: smod_nonneg_eq)
    have "0 \<le> s * saturation strip" using r hs by simp
    then have "(s * saturation strip) sdiv 100 = (s * saturation strip) div 100"
      "0 \<le> (s * saturation strip) div 100"
      by (simp_all add: sdiv_nonneg_eq pos_imp_zdiv_nonneg_iff)
    then have s0: "0 \<le> (if saturation strip \<noteq> 100 then min ((s * saturation strip) sdiv 100) 255 else s)"
      "(if saturation strip \<noteq> 100 then min ((s * saturation strip) sdiv 100) 255 else s) \<le> 255"
      using r by auto
    show ?thesis
      unfolding strip_color_stage_def px color_stage_hue_sat[OF False True hsv] v[unfolded px]
      using HSVtoRGB_channels_le[OF h0 s0] r by simp
  next
    case nop: False
    then have "strip_color_stage strip numLEDs i px = px"
      using False by (simp add: strip_color_stage_def color_stage_def px)
    then show ?thesis by (simp add: channels_le_self)
  qed
qed

lemma channels_le_zero: "channels_le px 0 \<Longrightarrow> px = (0, 0, 0)"
proof -
  assume a: "channels_le px 0"
  obtain r g b where px: "px = (r, g, b)" by (metis prod_cases3)
  have "uint r = 0" "uint g = 0" "uint b = 0"
    using a uint_ge_0[of r] uint_ge_0[of g] uint_ge_0[of b] by (simp_all add: channels_le_def px)
  then have "r = 0" "g = 0" "b = 0" by (simp_all add: uint_0_iff)
  then show ?thesis by (simp add: px)
qed

lemma pixel_value_zero: "pixel_value (0, 0, 0) = 0"
  by (simp add: pixel_value_max)

lemma brightness_stage_zero: "brightness_stage strip (0, 0, 0) = (0, 0, 0)"
  by (simp add: brightness_stage_def)

lemma swap_channels_zero: "swap_channels order (0, 0, 0) = (0, 0, 0)"
  by (cases order) (simp_all add: swap_channels_def)

section \<open>Resolved fields and reachable configurations\<close>

lemma smod_lt_zero_eq: "a < 0 \<Longrightarrow> 0 < b \<Longrightarrow> a smod b = - ((- a) mod (b::int))"
  by (simp add: signed_modulo_int_def sgn_if)

lemma hue_normalise: "((x smod 360) + 360) smod 360 = x mod (360::int)"
proof (cases "0 \<le> x")
  case True
  then have "x smod 360 = x mod 360" by (simp add: smod_nonneg_eq)
  moreover have "0 \<le> x mod 360 + 360" by simp
  ultimately show ?thesis by (simp add: smod_nonneg_eq)
next
  case False
  then have e: "x smod 360 = - ((- x) mod 360)" by (simp add: smod_lt_zero_eq)
  have "(- x) mod 360 < 360" by simp
  then have "0 \<le> - ((- x) mod 360) + 360" by simp
  then have "(- ((- x) mod 360) + 360) smod 360 = (- ((- x) mod 360) + 360) mod 360"
    by (rule smod_nonneg_eq) simp
  also have "\<dots> = (- ((- x) mod 360)) mod 360" by simp
  also have "\<dots> = (- (- x)) mod 360" by (simp add: mod_minus_eq)
  finally show ?thesis using e by simp
qed

lemma LoadStripFromSection_fields:
  "hue_shift (LoadStripFromSection lib fs section defaults) =
     GetPrivateProfileIntA lib fs section ''hue_shift'' (hue_shift defaults) mod 360"
  "saturation (LoadStripFromSection lib fs section defaults) =
     min (max (GetPrivateProfileIntA lib fs section ''saturation'' (saturation defaults)) 0) 200"
  "brightness (LoadStripFromSection lib fs section defaults) =
     min (max (GetPrivateProfileIntA lib fs section ''brightness'' (brightness defaults)) 0) 200"
  "static_color_enabled (LoadStripFromSection lib fs section defaults) =
     (ParseHexColor (GetPrivateProfileStringA fs section ''static_color'' [] 16) \<noteq> None \<or>
      static_color_enabled defaults)"
  "gradient_enabled (LoadStripFromSection lib fs section defaults) =
     ((static_color_enabled (LoadStripFromSection lib fs section defaults) \<and>
       ParseHexColor (GetPrivateProfileStringA fs section ''gradient_color'' [] 16) \<noteq> None) \<or>
      gradient_enabled defaults)"
  by (auto simp: LoadStripFromSection_def Let_def hue_normalise split: option.splits prod.splits)

text \<open>
  \<open>LoadStripFromSection\<close> reads neither \<open>enabled\<close> nor the lookup tables of its defaults.
\<close>

lemma LoadStripFromSection_unread_defaults:
  "LoadStripFromSection lib fs section (defaults\<lparr>enabled := e, lut_r := a, lut_g := b, lut_b := c\<rparr>) =
   LoadStripFromSection lib fs section defaults"
  by (simp add: LoadStripFromSection_def Let_def cong: option.case_cong prod.case_cong)

lemma LoadStripFromSection_ok:
  assumes "gradient_enabled defaults \<longrightarrow> static_color_enabled defaults"
  shows "strip_ok (LoadStripFromSection lib fs section defaults)"
  using assms unfolding strip_ok_def LoadStripFromSection_fields by auto

lemma identity_strip_ok: "strip_ok (identity_strip lib)"
  by (simp add: strip_ok_def identity_strip_def)

lemma LoadConfig_ok:
  assumes "\<forall>s \<in> set (strips c). strip_ok s"
  shows "\<forall>s \<in> set (strips (LoadConfig lib fs c)). strip_ok s"
proof (cases "attr_ok fs")
  case False
  then show ?thesis using assms by (auto simp: LoadConfig_def strip_ok_def)
next
  case True
  have g: "strip_ok (LoadStripFromSection lib fs ''global'' (identity_strip lib))"
    by (rule LoadStripFromSection_ok) (simp add: identity_strip_def)
  then have "gradient_enabled (LoadStripFromSection lib fs ''global'' (identity_strip lib)) \<longrightarrow>
     static_color_enabled (LoadStripFromSection lib fs ''global'' (identity_strip lib))"
    by (simp add: strip_ok_def)
  from LoadStripFromSection_ok[OF this] show ?thesis
    using True by (auto simp: LoadConfig_def Let_def)
qed

lemma CheckReload_ok:
  assumes "\<forall>s \<in> set (strips c). strip_ok s"
  shows "\<forall>s \<in> set (strips (CheckReload lib fs c)). strip_ok s"
proof -
  have a: "\<forall>s \<in> set (strips (c\<lparr>callCounter := 0\<rparr>)). strip_ok s" using assms by simp
  show ?thesis
    using assms LoadConfig_ok[OF a, of lib fs]
    by (auto simp: CheckReload_def Let_def identity_strip_ok)
qed

lemma reachable_ok: "reachable lib c \<Longrightarrow> \<forall>s \<in> set (strips c). strip_ok s"
proof (induction rule: reachable.induct)
  case init
  show ?case by (simp add: InitConfig_def identity_strip_ok)
next
  case (load c fs)
  from LoadConfig_ok[OF load.IH] show ?case .
next
  case (check c fs)
  from CheckReload_ok[OF check.IH] show ?case .
qed

lemma color_stage_hue_370_10:
  "color_stage (strip\<lparr>hue_shift := 370\<rparr>) H1 S1 H2 S2 n i px =
   color_stage (strip\<lparr>hue_shift := 10\<rparr>) H1 S1 H2 S2 n i px"
proof -
  obtain cr cg cb where px: "px = (cr, cg, cb)" by (metis prod_cases3)
  obtain h s v where hsv: "RGBtoHSV cr cg cb = (h, s, v)" by (metis prod_cases3)
  from RGBtoHSV_range[OF hsv] have h: "0 \<le> h" by simp
  have "h + 370 = (h + 10) + 360" by simp
  then have "(h + 370) mod 360 = (h + 10) mod 360" by (simp only: mod_add_self2)
  then have "(h + 370) smod 360 = (h + 10) smod 360"
    using h by (simp add: smod_nonneg_eq)
  then show ?thesis by (simp add: color_stage_def px hsv Let_def)
qed

lemma stages_hue_shift_update:
  "brightness_stage (strip\<lparr>hue_shift := x\<rparr>) px = brightness_stage strip px"
  "gamma_stage (strip\<lparr>hue_shift := x\<rparr>) px = gamma_stage strip px"
  by (cases px; simp add: brightness_stage_def gamma_stage_def)+

lemma transform_pixel_hue_370_10:
  "transform_pixel (strip\<lparr>hue_shift := 370\<rparr>) H1 S1 H2 S2 n i px =
   transform_pixel (strip\<lparr>hue_shift := 10\<rparr>) H1 S1 H2 S2 n i px"
  by (simp add: transform_pixel_def color_stage_hue_370_10 stages_hue_shift_update)

lemma TransformStrip_hue_370_10:
  "TransformStrip (strip\<lparr>hue_shift := 370\<rparr>) data numBytes =
   TransformStrip (strip\<lparr>hue_shift := 10\<rparr>) data numBytes"
  unfolding TransformStrip_def
  by (simp add: Let_def TransformStrip_loop_cong[OF transform_pixel_hue_370_10] split: prod.splits)

lemma set_key_other:
  assumes "key \<noteq> k"
  shows "GetPrivateProfileStringA (set_key fs section k val) sec key d n =
           GetPrivateProfileStringA fs sec key d n"
    and "GetPrivateProfileIntA lib (set_key fs section k val) sec key x =
           GetPrivateProfileIntA lib fs sec key x"
    and "GetProfileFloat lib (set_key fs section k val) sec key y =
           GetProfileFloat lib fs sec key y"
  using assms
  by (simp_all add: GetPrivateProfileStringA_def GetPrivateProfileIntA_def GetProfileFloat_def
      set_key_def)

lemma set_key_same:
  "GetPrivateProfileIntA lib (set_key fs section k val) sec k x =
     (if sec = section then sint (profile_int lib val) else GetPrivateProfileIntA lib fs sec k x)"
  by (simp add: GetPrivateProfileIntA_def set_key_def)

lemma LoadStripFromSection_hue_370_10:
  assumes "ini fs section ''hue_shift'' = Some t370"
      and "sint (profile_int lib t370) = 370" "sint (profile_int lib t10) = 10"
  shows "LoadStripFromSection lib (set_key fs section ''hue_shift'' t10) sec defaults =
         LoadStripFromSection lib fs sec defaults"
proof -
  have "(370::int) mod 360 = 10 mod 360" by simp
  then have h: "((370 smod 360) + 360) smod 360 = ((10 smod 360) + 360) smod (360::int)"
    unfolding hue_normalise .
  have old: "GetPrivateProfileIntA lib fs section ''hue_shift'' x = 370" for x
    using assms(1,2) by (simp add: GetPrivateProfileIntA_def)
  have new: "((GetPrivateProfileIntA lib (set_key fs section ''hue_shift'' t10) sec ''hue_shift'' x
                smod 360) + 360) smod 360 =
             ((GetPrivateProfileIntA lib fs sec ''hue_shift'' x smod 360) + 360) smod 360" for x
    using old h assms(3) by (simp add: set_key_same)
  show ?thesis
    unfolding LoadStripFromSection_def
    by (simp only: Let_def new set_key_other[of _ "''hue_shift''"] list.inject char.inject
        simp_thms not_False_eq_True)
qed

lemma CheckReload_below:
  assumes "callCounter c + 1 < RELOAD_INTERVAL"
  shows "CheckReload lib fs c = c\<lparr>callCounter := callCounter c + 1\<rparr>"
  using assms by (simp add: CheckReload_def Let_def)

lemma run_hook_calls_below:
  assumes "callCounter c + int (length fss) < RELOAD_INTERVAL"
  shows "run_hook_calls lib c fss = c\<lparr>callCounter := callCounter c + int (length fss)\<rparr>"
  using assms
proof (induction fss arbitrary: c)
  case Nil
  then show ?case by (simp add: run_hook_calls_def)
next
  case (Cons fs fss)
  then have b: "callCounter c + 1 < RELOAD_INTERVAL" by simp
  have "run_hook_calls lib c (fs # fss) = run_hook_calls lib (CheckReload lib fs c) fss"
    by (simp add: run_hook_calls_def)
  also have "\<dots> = run_hook_calls lib (c\<lparr>callCounter := callCounter c + 1\<rparr>) fss"
    by (simp add: CheckReload_below[OF b])
  also have "\<dots> = c\<lparr>callCounter := callCounter c + 1 + int (length fss)\<rparr>"
    using Cons.prems Cons.IH[of "c\<lparr>callCounter := callCounter c + 1\<rparr>"] by simp
  finally show ?case by (simp add: add.assoc)
qed

lemma LoadConfig_callCounter: "callCounter (LoadConfig lib fs c) = callCounter c"
  by (simp add: LoadConfig_def Let_def)

lemma LoadConfig_lastWriteTime:
  "attr_ok fs \<Longrightarrow> open_ok fs \<Longrightarrow> lastWriteTime (LoadConfig lib fs c) = write_time fs"
  by (simp add: LoadConfig_def Let_def)

lemma CheckReload_at_threshold:
  assumes "RELOAD_INTERVAL \<le> callCounter c + 1" "open_ok fs"
  shows "CheckReload lib fs c =
     (if write_time fs \<noteq> lastWriteTime c then LoadConfig lib fs (c\<lparr>callCounter := 0\<rparr>)
      else c\<lparr>callCounter := 0\<rparr>)"
  using assms by (simp add: CheckReload_def Let_def)

lemma CheckReload_counter_reset:
  assumes "RELOAD_INTERVAL \<le> callCounter c + 1"
  shows "callCounter (CheckReload lib fs c) = 0"
  using assms by (simp add: CheckReload_def Let_def LoadConfig_callCounter)

lemma CheckReload_same_time:
  assumes "open_ok fs" "write_time fs = lastWriteTime c"
  shows "strips (CheckReload lib fs c) = strips c \<and>
         lastWriteTime (CheckReload lib fs c) = lastWriteTime c"
  using assms by (simp add: CheckReload_def Let_def)

lemma reachable_counter:
  "reachable lib c \<Longrightarrow> 0 \<le> callCounter c \<and> callCounter c < RELOAD_INTERVAL"
proof (induction rule: reachable.induct)
  case init
  show ?case by (simp add: InitConfig_def RELOAD_INTERVAL_def)
next
  case (load c fs)
  then show ?case by (simp add: LoadConfig_callCounter)
next
  case (check c fs)
  show ?case
  proof (cases "callCounter c + 1 < RELOAD_INTERVAL")
    case True
    then show ?thesis using check.IH by (simp add: CheckReload_below)
  next
    case False
    then have "callCounter (CheckReload lib fs c) = 0"
      by (intro CheckReload_counter_reset) simp
    then show ?thesis by (simp add: RELOAD_INTERVAL_def)
  qed
qed

section \<open>The round trip through RGB\<close>

lemma RGBtoHSV_sat:
  "fst (snd (RGBtoHSV r g b)) =
     (if max (max (uint r) (uint g)) (uint b) = 0 then 0
      else ((max (max (uint r) (uint g)) (uint b) - min (min (uint r) (uint g)) (uint b)) * 255)
             sdiv max (max (uint r) (uint g)) (uint b))"
  by (simp add: RGBtoHSV_def Let_def)

lemma chan_p_floor:
  assumes "0 \<le> v" "0 \<le> s" "s \<le> 255"
  shows "v * s \<le> (v - chan_p s v) * 255 \<and> (v - chan_p s v) * 255 \<le> v * s + 254"
proof -
  define N where "N = v * (255 - s)"
  define p where "p = N div 255"
  have "N = 255 * p + N mod 255" by (simp add: p_def)
  moreover have "0 \<le> N mod 255" "N mod 255 \<le> 254" by simp_all
  ultimately have a: "255 * p \<le> N" "N - 254 \<le> 255 * p" by linarith+
  have n: "N = 255 * v - v * s" by (simp add: N_def algebra_simps)
  have "(v - p) * 255 = 255 * v - 255 * p" by (simp add: algebra_simps)
  then have "v * s \<le> (v - p) * 255 \<and> (v - p) * 255 \<le> v * s + 254"
    using a n by linarith
  then show ?thesis by (simp add: chan_p_def p_def N_def)
qed

lemma roundtrip_sat_bounds:
  assumes "1 \<le> v" "0 \<le> s" "s \<le> 255"
  shows "s \<le> ((v - chan_p s v) * 255) div v \<and> ((v - chan_p s v) * 255) div v \<le> s + 254 div v"
proof -
  note b = chan_p_floor[of v s]
  have v: "0 < v" using assms by simp
  have "(v * s) div v \<le> ((v - chan_p s v) * 255) div v"
    using b assms by (intro zdiv_mono1) simp_all
  moreover have "((v - chan_p s v) * 255) div v \<le> (v * s + 254) div v"
    using b assms by (intro zdiv_mono1) simp_all
  moreover have "(v * s) div v = s" using v by simp
  moreover have "(v * s + 254) div v = s + 254 div v"
    using v by (simp add: add.commute mult.commute)
  ultimately show ?thesis by simp
qed

text \<open>The hue of \<open>RGBtoHSV\<close> is \<open>rgb_hue\<close> of the channel values.\<close>

lemma RGBtoHSV_hue: "fst (RGBtoHSV r g b) = rgb_hue (uint r) (uint g) (uint b)"
  by (simp add: RGBtoHSV_def rgb_hue_def Let_def)

lemma le_div_of_mult_le:
  assumes "k * d \<le> b" "0 < (d::int)"
  shows "k \<le> b div d"
proof -
  have "(k * d) div d \<le> b div d" using assms by (intro zdiv_mono1) simp_all
  then show ?thesis using assms(2) by simp
qed

lemma div_less_of_less_mult:
  assumes "b < k * d" "0 < (d::int)"
  shows "b div d < k"
proof (rule ccontr)
  assume "\<not> b div d < k"
  then have "k \<le> b div d" by simp
  then have "k * d \<le> (b div d) * d" using assms(2) by (intro mult_right_mono) simp_all
  also have "\<dots> \<le> b"
  proof -
    have "b = (b div d) * d + b mod d" by simp
    moreover have "0 \<le> b mod d" using assms(2) by simp
    ultimately show ?thesis by linarith
  qed
  finally show False using assms(1) by simp
qed

lemma hue_step_bounds:
  assumes s: "0 \<le> s" "s \<le> 255" and v: "0 \<le> v" "v \<le> 255" and vs: "15240 \<le> v * s"
      and u: "0 \<le> u" "u \<le> 60"
  shows "u - 1 \<le> hue_step (chan_q s v (60 - u)) (chan_p s v) v \<and>
         hue_step (chan_q s v (60 - u)) (chan_p s v) v \<le> u + 1"
proof -
  define P where "P = v * (255 - s)"
  define p where "p = P div 255"
  define rho where "rho = P mod 255"
  define a where "a = (s * (60 - u)) div 60"
  define A where "A = s - a"
  define w where "w = (rho + v * A) div 255"
  define VS where "VS = v * s"
  define VA where "VA = v * A"
  have rho: "0 \<le> rho" "rho \<le> 254" by (simp_all add: rho_def)
  have Peq: "P = 255 * p + rho" by (simp add: p_def rho_def)
  have PVS: "P = 255 * v - VS" by (simp add: P_def VS_def algebra_simps)
  have p: "chan_p s v = p" by (simp add: chan_p_def p_def P_def)
  have delta: "255 * (v - p) = VS + rho" using Peq PVS by simp
  have VSge: "15240 \<le> VS" using vs by (simp add: VS_def)
  have delta': "255 * v - 255 * p = VS + rho" using Peq PVS by simp
  have dpos: "0 < v - p" using delta' VSge rho(1) by arith
  have a1: "60 * a \<le> s * (60 - u)" "s * (60 - u) \<le> 60 * a + 59"
  proof -
    have "s * (60 - u) = 60 * a + (s * (60 - u)) mod 60" by (simp add: a_def)
    moreover have "0 \<le> (s * (60 - u)) mod 60" "(s * (60 - u)) mod 60 \<le> 59" by simp_all
    ultimately show "60 * a \<le> s * (60 - u)" "s * (60 - u) \<le> 60 * a + 59" by linarith+
  qed
  have su: "s * (60 - u) = 60 * s - s * u" by (simp add: algebra_simps)
  have A1: "s * u \<le> 60 * A" "60 * A \<le> s * u + 59" using a1 su by (simp_all add: A_def)
  have A0: "0 \<le> A"
  proof -
    have "0 \<le> s * u" using s u by simp
    then show ?thesis using A1 by linarith
  qed
  have VA1: "VS * u \<le> 60 * VA" "60 * VA \<le> VS * u + 59 * v"
  proof -
    have "v * (s * u) \<le> v * (60 * A)" using A1 v by (intro mult_left_mono) simp_all
    then show "VS * u \<le> 60 * VA" by (simp add: VS_def VA_def algebra_simps)
    have "v * (60 * A) \<le> v * (s * u + 59)" using A1 v by (intro mult_left_mono) simp_all
    then show "60 * VA \<le> VS * u + 59 * v" by (simp add: VS_def VA_def algebra_simps)
  qed
  have q: "chan_q s v (60 - u) = p + w"
  proof -
    have "v * (255 - a) = P + v * A" by (simp add: P_def A_def algebra_simps)
    also have "\<dots> = 255 * p + (rho + v * A)" using Peq by simp
    finally have "v * (255 - a) div 255 = p + (rho + v * A) div 255" by simp
    then show ?thesis by (simp add: chan_q_def a_def w_def)
  qed
  have w1: "255 * w \<le> rho + VA" "rho + VA \<le> 255 * w + 254"
  proof -
    have "rho + VA = 255 * w + (rho + VA) mod 255" by (simp add: w_def VA_def)
    moreover have "0 \<le> (rho + VA) mod 255" "(rho + VA) mod 255 \<le> 254" by simp_all
    ultimately show "255 * w \<le> rho + VA" "rho + VA \<le> 255 * w + 254" by linarith+
  qed
  have step: "hue_step (chan_q s v (60 - u)) (chan_p s v) v = (60 * w) div (v - p)"
    by (simp add: hue_step_def p q)
  have urho: "0 \<le> u * rho" "u * rho \<le> 60 * rho"
  proof -
    show "0 \<le> u * rho" using u rho by simp
    have "u * rho \<le> 60 * rho" using u rho by (intro mult_right_mono) simp_all
    then show "u * rho \<le> 60 * rho" .
  qed
  have "255 * ((u - 1) * (v - p)) = (u - 1) * (VS + rho)" using delta by (simp add: algebra_simps)
  also have "\<dots> = VS * u + u * rho - VS - rho" by (simp add: algebra_simps)
  also have "\<dots> \<le> 60 * VA + 60 * rho - 15240" using VA1 urho VSge rho by linarith
  also have "\<dots> \<le> 255 * (60 * w)" using w1 by linarith
  finally have "(u - 1) * (v - p) \<le> 60 * w" by simp
  then have lower: "u - 1 \<le> (60 * w) div (v - p)" using dpos by (rule le_div_of_mult_le)
  have "255 * (60 * w) \<le> 60 * rho + 60 * VA" using w1 by linarith
  also have "\<dots> \<le> 60 * rho + VS * u + 59 * v" using VA1 by linarith
  also have "\<dots> < VS * u + 2 * VS + u * rho + 2 * rho" using urho VSge rho v by linarith
  also have "\<dots> = (u + 2) * (VS + rho)" by (simp add: algebra_simps)
  also have "\<dots> = 255 * ((u + 2) * (v - p))" using delta by (simp add: algebra_simps)
  finally have "255 * (60 * w) < 255 * ((u + 2) * (v - p))" .
  then have "60 * w < (u + 2) * (v - p)" by (simp only: mult_less_cancel_left_pos zero_less_numeral)
  then have "(60 * w) div (v - p) < u + 2" using dpos by (rule div_less_of_less_mult)
  then show ?thesis using lower step by simp
qed

text \<open>The hue of each of the six channel patterns that \<open>HSVtoRGB\<close> produces.\<close>

lemma sdiv_of_neg:
  assumes "0 \<le> a" "0 < (d::int)"
  shows "(- a) sdiv d = - (a div d)"
proof (cases "a = 0")
  case True
  then show ?thesis by simp
next
  case False
  then have "- a < 0" using assms(1) by simp
  from sdiv_neg_eq[OF this assms(2)] show ?thesis by simp
qed

lemma hue_step_range:
  assumes "p < v" "p \<le> c" "c \<le> v"
  shows "0 \<le> hue_step c p v \<and> hue_step c p v \<le> 60 \<and> hue_step v p v = 60"
proof -
  have d: "0 < v - p" using assms by simp
  have "0 \<le> 60 * (c - p)" using assms by simp
  then have a: "0 \<le> (60 * (c - p)) div (v - p)" using d by (simp add: pos_imp_zdiv_nonneg_iff)
  have "60 * (c - p) \<le> 60 * (v - p)" using assms by simp
  then have "(60 * (c - p)) div (v - p) \<le> (60 * (v - p)) div (v - p)"
    using d by (intro zdiv_mono1) simp_all
  moreover have e: "(60 * (v - p)) div (v - p) = 60"
  proof -
    have "v - p \<noteq> 0" using d by simp
    then show ?thesis by (rule nonzero_mult_div_cancel_right)
  qed
  ultimately show ?thesis using a by (simp add: hue_step_def)
qed

lemma hue_terms:
  assumes "p < v" "p \<le> c" "c \<le> v"
  shows "(60 * (c - p)) sdiv (v - p) = hue_step c p v"
    and "(60 * (p - c)) sdiv (v - p) = - hue_step c p v"
proof -
  have d: "0 < v - p" using assms by simp
  have n: "0 \<le> 60 * (c - p)" using assms by simp
  show "(60 * (c - p)) sdiv (v - p) = hue_step c p v"
    using n d by (simp add: sdiv_nonneg_eq hue_step_def)
  have "60 * (p - c) = - (60 * (c - p))" by simp
  then show "(60 * (p - c)) sdiv (v - p) = - hue_step c p v"
    using sdiv_of_neg[OF n d] by (simp add: hue_step_def)
qed

lemma rgb_hue_unfold:
  assumes "max (max R G) B = v" "min (min R G) B = p" "p < v" "0 \<le> p"
  shows "rgb_hue R G B =
     (let h = (if v = R then (60 * (G - B)) sdiv (v - p)
               else if v = G then 120 + (60 * (B - R)) sdiv (v - p)
               else 240 + (60 * (R - G)) sdiv (v - p))
      in if h < 0 then h + 360 else h)"
  using assms(3,4) unfolding rgb_hue_def Let_def assms(1,2) by simp

lemma rgb_hue_0:
  assumes "p < v" "p \<le> c" "c \<le> v" "0 \<le> p"
  shows "rgb_hue v c p = hue_step c p v"
proof -
  have m: "max (max v c) p = v" "min (min v c) p = p" using assms by simp_all
  show ?thesis
    unfolding rgb_hue_unfold[OF m assms(1,4)] Let_def hue_terms[OF assms(1-3)]
    using hue_step_range[OF assms(1-3)] by simp
qed

lemma rgb_hue_1:
  assumes "p < v" "p \<le> c" "c \<le> v" "0 \<le> p"
  shows "rgb_hue c v p = 120 - hue_step c p v"
proof -
  have m: "max (max c v) p = v" "min (min c v) p = p" using assms by simp_all
  note r = hue_step_range[OF assms(1-3)]
  note vv = hue_terms[OF assms(1) less_imp_le[OF assms(1)] order_refl]
  show ?thesis
  proof (cases "c = v")
    case True
    then show ?thesis
      unfolding rgb_hue_unfold[OF m assms(1,4)] Let_def vv hue_terms[OF assms(1-3)]
      using r by simp
  next
    case False
    then show ?thesis
      unfolding rgb_hue_unfold[OF m assms(1,4)] Let_def vv hue_terms[OF assms(1-3)]
      using r by simp
  qed
qed

lemma rgb_hue_2:
  assumes "p < v" "p \<le> c" "c \<le> v" "0 \<le> p"
  shows "rgb_hue p v c = 120 + hue_step c p v"
proof -
  have m: "max (max p v) c = v" "min (min p v) c = p" using assms by simp_all
  show ?thesis
    unfolding rgb_hue_unfold[OF m assms(1,4)] Let_def hue_terms[OF assms(1-3)]
    using hue_step_range[OF assms(1-3)] assms(1) by simp
qed

lemma rgb_hue_3:
  assumes "p < v" "p \<le> c" "c \<le> v" "0 \<le> p"
  shows "rgb_hue p c v = 240 - hue_step c p v"
proof -
  have m: "max (max p c) v = v" "min (min p c) v = p" using assms by simp_all
  note r = hue_step_range[OF assms(1-3)]
  note vv = hue_terms[OF assms(1) less_imp_le[OF assms(1)] order_refl]
  show ?thesis
  proof (cases "c = v")
    case True
    then show ?thesis
      unfolding rgb_hue_unfold[OF m assms(1,4)] Let_def vv hue_terms[OF assms(1-3)]
      using r assms(1) by simp
  next
    case False
    then show ?thesis
      unfolding rgb_hue_unfold[OF m assms(1,4)] Let_def vv hue_terms[OF assms(1-3)]
      using r assms(1) by simp
  qed
qed

lemma rgb_hue_4:
  assumes "p < v" "p \<le> c" "c \<le> v" "0 \<le> p"
  shows "rgb_hue c p v = 240 + hue_step c p v"
proof -
  have m: "max (max c p) v = v" "min (min c p) v = p" using assms by simp_all
  note r = hue_step_range[OF assms(1-3)]
  note vv = hue_terms[OF assms(1) less_imp_le[OF assms(1)] order_refl]
  show ?thesis
  proof (cases "c = v")
    case True
    then show ?thesis
      unfolding rgb_hue_unfold[OF m assms(1,4)] Let_def vv hue_terms[OF assms(1-3)]
      using r assms(1) by simp
  next
    case False
    then show ?thesis
      unfolding rgb_hue_unfold[OF m assms(1,4)] Let_def vv hue_terms[OF assms(1-3)]
      using r assms(1) by simp
  qed
qed

lemma rgb_hue_5:
  assumes "p < v" "p \<le> c" "c \<le> v" "0 \<le> p"
  shows "rgb_hue v p c = (if hue_step c p v = 0 then 0 else 360 - hue_step c p v)"
proof -
  have m: "max (max v p) c = v" "min (min v p) c = p" using assms by simp_all
  show ?thesis
    unfolding rgb_hue_unfold[OF m assms(1,4)] Let_def hue_terms[OF assms(1-3)]
    using hue_step_range[OF assms(1-3)] by simp
qed

text \<open>The hue after the round trip, when \<open>v * s\<close> is at least \<open>60 * 254\<close>.\<close>

lemma roundtrip_hue:
  assumes h: "0 \<le> h" "h \<le> 359" and s: "1 \<le> s" "s \<le> 255" and v: "1 \<le> v" "v \<le> 255"
      and vs: "15240 \<le> v * s" and ch: "hsv_channels h s v = (a, b, c)"
  shows "\<bar>rgb_hue a b c - h\<bar> \<le> 1 \<or> (h = 359 \<and> rgb_hue a b c = 0)"
proof -
  define k r where "k = h div 60" and "r = h mod 60"
  define p q t where "p = chan_p s v" and "q = chan_q s v r" and "t = chan_q s v (60 - r)"
  have hk: "h = 60 * k + r" by (simp add: k_def r_def)
  have r: "0 \<le> r" "r \<le> 59" by (simp_all add: r_def)
  have k: "0 \<le> k" "k \<le> 5"
  proof -
    show "0 \<le> k" using h(1) by (simp add: k_def pos_imp_zdiv_nonneg_iff)
    have "h div 60 \<le> 359 div 60" using h(2) by (intro zdiv_mono1) simp_all
    then show "k \<le> 5" by (simp add: k_def)
  qed
  have h360: "h mod 360 = h" using h by simp
  have s0: "0 \<le> s" "s \<noteq> 0" and v0: "0 \<le> v" using s v by simp_all
  have r': "0 \<le> 60 - r" "60 - r \<le> 60" "r \<le> 60" using r by simp_all
  have pq: "p \<le> q" "q \<le> v" and p0: "0 \<le> p"
    using chan_q_bounds[OF s0(1) s(2) v0 r(1) r'(3)] by (simp_all add: p_def q_def)
  have pt: "p \<le> t" "t \<le> v"
    using chan_q_bounds[OF s0(1) s(2) v0 r'(1,2)] by (simp_all add: p_def t_def)
  have pv: "p < v"
  proof -
    have "v * s \<le> (v - p) * 255" using chan_p_floor[OF v0 s0(1) s(2)] by (simp add: p_def)
    then have "0 < (v - p) * 255" using vs by linarith
    then show ?thesis by simp
  qed
  have Xa: "r - 1 \<le> hue_step t p v" "hue_step t p v \<le> r + 1"
    using hue_step_bounds[OF s0(1) s(2) v0 v(2) vs r(1) r'(3)] by (simp_all add: p_def t_def)
  have Xd: "59 - r \<le> hue_step q p v" "hue_step q p v \<le> 61 - r"
    using hue_step_bounds[OF s0(1) s(2) v0 v(2) vs r'(1,2)] by (simp_all add: p_def q_def)
  have hc: "(a, b, c) =
      (if k = 0 then (v, t, p) else if k = 1 then (q, v, p) else if k = 2 then (p, v, t)
       else if k = 3 then (p, q, v) else if k = 4 then (t, p, v) else (v, p, q))"
    using s0(2) ch[symmetric]
    by (simp add: hsv_channels_def Let_def h360 k_def r_def p_def q_def t_def)
  consider "k = 0" | "k = 1" | "k = 2" | "k = 3" | "k = 4" | "k = 5" using k by linarith
  then show ?thesis
  proof cases
    case 1
    then have "rgb_hue a b c = hue_step t p v" using hc rgb_hue_0[OF pv pt p0] by simp
    then have "\<bar>rgb_hue a b c - h\<bar> \<le> 1" using Xa hk 1 by linarith
    then show ?thesis by simp
  next
    case 2
    then have "rgb_hue a b c = 120 - hue_step q p v" using hc rgb_hue_1[OF pv pq p0] by simp
    then have "\<bar>rgb_hue a b c - h\<bar> \<le> 1" using Xd hk 2 by linarith
    then show ?thesis by simp
  next
    case 3
    then have "rgb_hue a b c = 120 + hue_step t p v" using hc rgb_hue_2[OF pv pt p0] by simp
    then have "\<bar>rgb_hue a b c - h\<bar> \<le> 1" using Xa hk 3 by linarith
    then show ?thesis by simp
  next
    case 4
    then have "rgb_hue a b c = 240 - hue_step q p v" using hc rgb_hue_3[OF pv pq p0] by simp
    then have "\<bar>rgb_hue a b c - h\<bar> \<le> 1" using Xd hk 4 by linarith
    then show ?thesis by simp
  next
    case 5
    then have "rgb_hue a b c = 240 + hue_step t p v" using hc rgb_hue_4[OF pv pt p0] by simp
    then have "\<bar>rgb_hue a b c - h\<bar> \<le> 1" using Xa hk 5 by linarith
    then show ?thesis by simp
  next
    case 6
    then have e: "rgb_hue a b c = (if hue_step q p v = 0 then 0 else 360 - hue_step q p v)"
      using hc rgb_hue_5[OF pv pq p0] by simp
    show ?thesis
    proof (cases "hue_step q p v = 0")
      case True
      then have "r = 59" using Xd r by linarith
      then have "h = 359" using hk 6 by simp
      then show ?thesis using e True by simp
    next
      case False
      then have "rgb_hue a b c = 360 - hue_step q p v" using e by simp
      then have "\<bar>rgb_hue a b c - h\<bar> \<le> 1" using Xd hk 6 by linarith
      then show ?thesis by simp
    qed
  qed
qed

section \<open>Evaluation on the sample inputs\<close>

lemmas hex_defs = ParseHexColor_def sscanf_06x_def isspace_c_def strip_sign_def strip_0x_def
  is_hex_def hex_val_def hex_number_def Let_def

lemmas fs_defs = sample_fs_def ini_of_def GetPrivateProfileStringA_def GetPrivateProfileIntA_def

lemma LoadConfig_strips:
  assumes "attr_ok fs"
  shows "strips (LoadConfig lib fs c) =
     map (\<lambda>name. LoadStripFromSection lib fs name
                  (LoadStripFromSection lib fs ''global'' (identity_strip lib)))
       StripSectionNames"
  using assms by (simp add: LoadConfig_def Let_def)

lemma loaded_80_facts:
  "callCounter loaded_80 = 0"
  "lastWriteTime loaded_80 = \<lparr> dwLowDateTime = 1, dwHighDateTime = 0 \<rparr>"
  by (simp_all add: loaded_80_def LoadConfig_callCounter LoadConfig_lastWriteTime
      bright_80_fs_def sample_fs_def InitConfig_def)

text \<open>For the gamma exponent \<open>1.0f\<close> the lookup table is the identity, whatever the library computes.\<close>

lemma BuildGammaLUT_one: "BuildGammaLUT lib f_one i = i"
  by (simp add: BuildGammaLUT_def)

text \<open>
  The clamp and the cast of \<open>BuildGammaLUT\<close> keep the order of the values the float
  expression yields: a table is non-decreasing whenever that expression is.
\<close>

lemma BuildGammaLUT_mono_of_curve:
  assumes "\<And>i j. 0 \<le> i \<Longrightarrow> i \<le> j \<Longrightarrow> j \<le> 255 \<Longrightarrow>
             sint (gamma_val lib gamma i) \<le> sint (gamma_val lib gamma j)"
      and "i \<le> j"
  shows "BuildGammaLUT lib gamma i \<le> BuildGammaLUT lib gamma j"
proof (cases "gamma = f_one")
  case True
  then show ?thesis using assms(2) by (simp add: BuildGammaLUT_def)
next
  case False
  define a where "a = min (max (sint (gamma_val lib gamma (uint i))) 0) 255"
  define b where "b = min (max (sint (gamma_val lib gamma (uint j))) 0) 255"
  have ij: "0 \<le> uint i" "uint i \<le> uint j" "uint j \<le> 255"
    using assms(2) uint_lt2p[of j] by (simp_all add: word_le_def)
  have "a \<le> b" using assms(1)[OF ij] by (auto simp: a_def b_def)
  moreover have "0 \<le> a" "a < 256" "0 \<le> b" "b < 256" by (simp_all add: a_def b_def)
  ultimately have "(word_of_int a :: u8) \<le> word_of_int b"
    by (simp add: word_le_def uint_u8_of_int)
  then show ?thesis using False by (simp add: BuildGammaLUT_def a_def b_def Let_def)
qed

text \<open>Every byte count the hook passes is a whole number of LEDs that fits its buffer.\<close>

lemma TapeLedDataCount_whole_leds:
  "TapeLedDataCount = map (\<lambda>n. int (3 * n)) [74, 12, 12, 56, 56, 94, 12, 12, 14, 86] \<and>
   (\<forall>n \<in> set [74, 12, 12, 56, 56, 94, 12, 12, 14, 86 :: nat]. 3 * n \<le> 282)"
  by (simp add: TapeLedDataCount_def)

text \<open>
  The whole path on a sample: with the global brightness at 80 percent the strip \<open>title\<close>
  turns white LEDs into \<open>(204, 204, 204)\<close>.
\<close>

lemma composite_brightness_80:
  "TransformStrip (strips loaded_80 ! 0) [255, 255, 255, 255, 255, 255] 6 =
     Some [204, 204, 204, 204, 204, 204]"
  by (simp add: loaded_80_def LoadConfig_strips bright_80_fs_def sample_fs_def
      StripSectionNames_def LoadStripFromSection_def GetProfileFloat_def
      GetPrivateProfileStringA_def GetPrivateProfileIntA_def ini_of_def hex_defs
      identity_strip_def sample_lib_def dec_number_def ParseChannelOrder_def stricmp_eq_def
      tolower_c_def order_name_def BuildGammaLUT_def
      TransformStrip_def TransformStrip_loop.simps transform_pixel_def swap_channels_def
      gamma_stage_def color_stage_def brightness_stage_def
      signed_divide_int_def signed_modulo_int_def)

section \<open>The fast path of an inactive strip\<close>

text \<open>
  Claim C1. For every strip transform whose \<open>enabled\<close> flag is false and every buffer,
  \<open>TransformStrip\<close> returns with the buffer byte for byte unchanged, whatever byte
  count it is given; in particular every strip of the fully-default configuration that
  \<open>InitConfig\<close> builds leaves every buffer unchanged.
\<close>

theorem TransformStrip_inactive_unchanged:
  "(\<not> enabled strip \<longrightarrow> TransformStrip strip data numBytes = Some data) \<and>
   (\<forall>s \<in> set (strips (InitConfig lib)). TransformStrip s data numBytes = Some data)"
  by (simp add: TransformStrip_def InitConfig_def identity_strip_def)

theorem TransformStrip_inactive_unchanged_witness:
  "\<not> enabled (identity_strip sample_lib) \<and>
   identity_strip sample_lib \<in> set (strips (InitConfig sample_lib)) \<and>
   TransformStrip (identity_strip sample_lib) [1, 2, 3, 4, 5, 6] 6 = Some [1, 2, 3, 4, 5, 6]"
  using TransformStrip_inactive_unchanged
          [of "identity_strip sample_lib" "[1, 2, 3, 4, 5, 6]" 6 sample_lib]
  by (simp add: InitConfig_def identity_strip_def)

section \<open>Hexadecimal colours\<close>

text \<open>
  Claim C3 says that every string that is not an optional \<open>#\<close> followed by exactly six
  hexadecimal digits is treated as not specified. \<open>ParseHexColor\<close> checks the length of
  the text and that \<open>sscanf_s\<close> converted something, and \<open>sscanf_s\<close> stops at the first
  character that is not a hexadecimal digit: the text \<open>12zzzz\<close> is accepted as the colour
  \<open>000012\<close> and switches the static colour on, where an absent key leaves it off. The
  text \<open>zzzzzz\<close> of the claim is rejected and resolves as an absent key does.
\<close>

theorem ParseHexColor_accepts_hex_prefix:
  "ParseHexColor ''12zzzz'' = Some (0, 0, 0x12) \<and> ParseHexColor ''zzzzzz'' = None"
  by (simp add: hex_defs)

text \<open>
  The same two texts as the value of \<open>static_color\<close> in the section of a strip whose
  defaults have no static colour.
\<close>

lemma static_color_12zzzz:
  "static_color_enabled
     (LoadStripFromSection sample_lib (sample_fs 1 [(''title'', ''static_color'', ''12zzzz'')])
        ''title'' (identity_strip sample_lib)) \<and>
   static_b
     (LoadStripFromSection sample_lib (sample_fs 1 [(''title'', ''static_color'', ''12zzzz'')])
        ''title'' (identity_strip sample_lib)) = 0x12 \<and>
   \<not> static_color_enabled
     (LoadStripFromSection sample_lib (sample_fs 1 []) ''title'' (identity_strip sample_lib)) \<and>
   LoadStripFromSection sample_lib (sample_fs 1 [(''title'', ''static_color'', ''zzzzzz'')])
        ''title'' (identity_strip sample_lib) =
   LoadStripFromSection sample_lib (sample_fs 1 []) ''title'' (identity_strip sample_lib)"
  by (simp add: LoadStripFromSection_def GetProfileFloat_def fs_defs hex_defs identity_strip_def
      sample_lib_def)

text \<open>
  What does hold: a text of the wrong length is rejected, so is a text of six characters that
  starts with a character no hexadecimal number can start with, and a rejected text for
  \<open>static_color\<close> loads the strip that the section without the key loads.
\<close>

lemma ParseHexColor_wrong_length:
  "length (if str \<noteq> [] \<and> hd str = CHR ''#'' then tl str else str) \<noteq> 6 \<Longrightarrow>
   ParseHexColor str = None"
  by (auto simp: ParseHexColor_def Let_def)

lemma ParseHexColor_bad_first_char:
  assumes "hex \<noteq> []" "\<not> is_hex (hd hex)" "\<not> isspace_c (hd hex)"
    "hd hex \<noteq> CHR ''-''" "hd hex \<noteq> CHR ''+''" "hd hex \<noteq> CHR ''#''"
  shows "ParseHexColor hex = None"
proof -
  obtain c cs where hex: "hex = c # cs" using assms(1) by (cases hex) auto
  have c: "\<not> is_hex c" "\<not> isspace_c c" "c \<noteq> CHR ''-''" "c \<noteq> CHR ''+''" "c \<noteq> CHR ''#''"
    using assms by (simp_all add: hex)
  have z: "c \<noteq> CHR ''0''" using c(1) by (auto simp: is_hex_def hex_val_def)
  have s0: "strip_0x (c # take 5 cs) = c # take 5 cs"
    using z by (simp add: strip_0x_def split: list.splits)
  have "sscanf_06x (c # cs) = None"
    using c s0 by (simp add: sscanf_06x_def strip_sign_def Let_def)
  then show ?thesis using c by (simp add: ParseHexColor_def hex Let_def)
qed

lemma rejected_static_color_as_absent:
  assumes "ParseHexColor (take 15 val) = None"
  shows "LoadStripFromSection lib (set_key fs section ''static_color'' val) sec defaults =
         LoadStripFromSection lib (remove_key fs section ''static_color'') sec defaults"
proof -
  have other: "GetPrivateProfileStringA (remove_key fs section ''static_color'') s key d n =
        GetPrivateProfileStringA (set_key fs section ''static_color'' val) s key d n"
       "GetPrivateProfileIntA lib (remove_key fs section ''static_color'') s key x =
        GetPrivateProfileIntA lib (set_key fs section ''static_color'' val) s key x"
       "GetProfileFloat lib (remove_key fs section ''static_color'') s key y =
        GetProfileFloat lib (set_key fs section ''static_color'' val) s key y"
    if "key \<noteq> ''static_color''" for s key d n x y
    using that
    by (simp_all add: GetPrivateProfileStringA_def GetPrivateProfileIntA_def GetProfileFloat_def
        set_key_def remove_key_def)
  have same: "ParseHexColor (GetPrivateProfileStringA (set_key fs section ''static_color'' val)
                  sec ''static_color'' [] 16) =
        ParseHexColor (GetPrivateProfileStringA (remove_key fs section ''static_color'')
                  sec ''static_color'' [] 16)"
  proof (cases "sec = section")
    case True
    have "GetPrivateProfileStringA (set_key fs section ''static_color'' val)
            sec ''static_color'' [] 16 = take 15 val"
      using True by (simp add: GetPrivateProfileStringA_def set_key_def)
    moreover have "GetPrivateProfileStringA (remove_key fs section ''static_color'')
            sec ''static_color'' [] 16 = []"
      using True by (simp add: GetPrivateProfileStringA_def remove_key_def)
    moreover have "ParseHexColor [] = None" by (simp add: ParseHexColor_def)
    ultimately show ?thesis using assms by simp
  next
    case False
    then show ?thesis
      by (simp add: GetPrivateProfileStringA_def set_key_def remove_key_def)
  qed
  show ?thesis
    unfolding LoadStripFromSection_def
    by (simp only: Let_def same other[of _ , symmetric] list.inject char.inject
        simp_thms not_False_eq_True)
qed

section \<open>Reload gating\<close>

text \<open>
  Claim C4. \<open>CheckReload\<close> looks at the file system at most once per window of 300
  calls: the counter of every reachable configuration is in \<open>[0, 299]\<close>; while it stays
  below \<open>RELOAD_INTERVAL\<close> a run of calls only counts, whatever the file system shows; and
  a call that reaches the threshold resets the counter to zero. On such a check of a file
  that can be opened the configuration is loaded again if and only if the last write time
  differs from the stored one; with an unchanged time the call changes nothing but the
  counter. In particular, after a load of a file, a file with the same last write time
  never changes the strips, whatever it contains.
\<close>

theorem reload_gating:
  "(reachable lib c \<longrightarrow> 0 \<le> callCounter c \<and> callCounter c < RELOAD_INTERVAL) \<and>
   (callCounter c + int (length fss) < RELOAD_INTERVAL \<longrightarrow>
      run_hook_calls lib c fss = c\<lparr>callCounter := callCounter c + int (length fss)\<rparr>) \<and>
   (RELOAD_INTERVAL \<le> callCounter c + 1 \<longrightarrow> callCounter (CheckReload lib fs c) = 0) \<and>
   (RELOAD_INTERVAL \<le> callCounter c + 1 \<and> open_ok fs \<longrightarrow>
      CheckReload lib fs c =
        (if write_time fs \<noteq> lastWriteTime c then LoadConfig lib fs (c\<lparr>callCounter := 0\<rparr>)
         else c\<lparr>callCounter := 0\<rparr>)) \<and>
   (attr_ok fs1 \<and> open_ok fs1 \<and> open_ok fs2 \<and> write_time fs2 = write_time fs1 \<longrightarrow>
      strips (CheckReload lib fs2 (LoadConfig lib fs1 c)) = strips (LoadConfig lib fs1 c))"
  using reachable_counter[of lib c]
    run_hook_calls_below[of c fss lib] CheckReload_counter_reset[of c lib fs]
    CheckReload_at_threshold[of c fs lib]
    CheckReload_same_time[of fs2 "LoadConfig lib fs1 c" lib]
    LoadConfig_lastWriteTime[of fs1 lib c]
  by simp

theorem reload_gating_witness:
  "reachable sample_lib loaded_80 \<and> callCounter loaded_80 = 0 \<and>
   callCounter loaded_80 + int (length (replicate 299 bright_50_later_fs)) < RELOAD_INTERVAL \<and>
   run_hook_calls sample_lib loaded_80 (replicate 299 bright_50_later_fs) =
     loaded_80\<lparr>callCounter := 299\<rparr> \<and>
   RELOAD_INTERVAL \<le> callCounter (loaded_80\<lparr>callCounter := 299\<rparr>) + 1 \<and>
   open_ok bright_50_same_time_fs \<and>
   write_time bright_50_same_time_fs = lastWriteTime (loaded_80\<lparr>callCounter := 299\<rparr>) \<and>
   ini bright_50_same_time_fs \<noteq> ini bright_80_fs \<and>
   CheckReload sample_lib bright_50_same_time_fs (loaded_80\<lparr>callCounter := 299\<rparr>) =
     loaded_80\<lparr>callCounter := 0\<rparr> \<and>
   open_ok bright_50_later_fs \<and>
   write_time bright_50_later_fs \<noteq> lastWriteTime (loaded_80\<lparr>callCounter := 299\<rparr>) \<and>
   CheckReload sample_lib bright_50_later_fs (loaded_80\<lparr>callCounter := 299\<rparr>) =
     LoadConfig sample_lib bright_50_later_fs (loaded_80\<lparr>callCounter := 0\<rparr>) \<and>
   attr_ok bright_80_fs \<and> open_ok bright_80_fs \<and>
   write_time bright_50_same_time_fs = write_time bright_80_fs \<and>
   strips (CheckReload sample_lib bright_50_same_time_fs loaded_80) = strips loaded_80"
proof -
  have d: "ini bright_50_same_time_fs \<noteq> ini bright_80_fs"
  proof
    assume "ini bright_50_same_time_fs = ini bright_80_fs"
    then have "ini bright_50_same_time_fs ''global'' ''brightness'' =
               ini bright_80_fs ''global'' ''brightness''" by simp
    then show False
      by (simp add: bright_50_same_time_fs_def bright_80_fs_def sample_fs_def ini_of_def)
  qed
  have f: "open_ok bright_50_same_time_fs" "open_ok bright_50_later_fs"
    "attr_ok bright_80_fs" "open_ok bright_80_fs"
    "write_time bright_50_same_time_fs = \<lparr> dwLowDateTime = 1, dwHighDateTime = 0 \<rparr>"
    "write_time bright_50_later_fs = \<lparr> dwLowDateTime = 2, dwHighDateTime = 0 \<rparr>"
    "write_time bright_80_fs = \<lparr> dwLowDateTime = 1, dwHighDateTime = 0 \<rparr>"
    by (simp_all add: bright_50_same_time_fs_def bright_50_later_fs_def bright_80_fs_def
        sample_fs_def)
  have a: "run_hook_calls sample_lib loaded_80 (replicate 299 bright_50_later_fs) =
     loaded_80\<lparr>callCounter := 299\<rparr>"
    using reload_gating[where c = loaded_80 and fss = "replicate 299 bright_50_later_fs"
            and lib = sample_lib]
    by (simp add: loaded_80_facts RELOAD_INTERVAL_def)
  have b: "CheckReload sample_lib bright_50_same_time_fs (loaded_80\<lparr>callCounter := 299\<rparr>) =
     loaded_80\<lparr>callCounter := 0\<rparr>"
    using reload_gating[where c = "loaded_80\<lparr>callCounter := 299\<rparr>" and lib = sample_lib
            and fs = bright_50_same_time_fs]
    by (simp add: loaded_80_facts RELOAD_INTERVAL_def f)
  have c: "CheckReload sample_lib bright_50_later_fs (loaded_80\<lparr>callCounter := 299\<rparr>) =
     LoadConfig sample_lib bright_50_later_fs (loaded_80\<lparr>callCounter := 0\<rparr>)"
    using reload_gating[where c = "loaded_80\<lparr>callCounter := 299\<rparr>" and lib = sample_lib
            and fs = bright_50_later_fs]
    by (simp add: loaded_80_facts RELOAD_INTERVAL_def f)
  have e: "strips (CheckReload sample_lib bright_50_same_time_fs loaded_80) = strips loaded_80"
    using reload_gating[where c = "InitConfig sample_lib" and lib = sample_lib
            and ?fs1.0 = bright_80_fs and ?fs2.0 = bright_50_same_time_fs]
    by (simp add: f loaded_80_def)
  have r: "reachable sample_lib loaded_80"
    unfolding loaded_80_def by (intro reachable.intros)
  show ?thesis
    using a b c d e r by (simp add: loaded_80_facts RELOAD_INTERVAL_def f)
qed

section \<open>A gradient needs a static colour\<close>

text \<open>
  Claim C5. In every configuration reachable through \<open>InitConfig\<close>, \<open>LoadConfig\<close> (with any
  file contents) and \<open>CheckReload\<close> (with its deletion reset), every strip whose gradient is
  enabled has its static colour enabled. A strip loaded without a resolved static colour has
  its gradient disabled, whatever the section holds for \<open>gradient_color\<close>, when the defaults
  it falls back to are themselves consistent (as the hardcoded and the global defaults are).
\<close>

theorem gradient_requires_static:
  "(reachable lib c \<longrightarrow> (\<forall>s \<in> set (strips c). gradient_enabled s \<longrightarrow> static_color_enabled s)) \<and>
   ((gradient_enabled defaults \<longrightarrow> static_color_enabled defaults) \<and>
    \<not> static_color_enabled (LoadStripFromSection lib fs section defaults) \<longrightarrow>
      \<not> gradient_enabled (LoadStripFromSection lib fs section defaults))"
proof (intro conjI impI)
  assume "reachable lib c"
  from reachable_ok[OF this]
  show "\<forall>s \<in> set (strips c). gradient_enabled s \<longrightarrow> static_color_enabled s"
    by (simp add: strip_ok_def)
next
  assume a: "(gradient_enabled defaults \<longrightarrow> static_color_enabled defaults) \<and>
    \<not> static_color_enabled (LoadStripFromSection lib fs section defaults)"
  then have "strip_ok (LoadStripFromSection lib fs section defaults)"
    by (intro LoadStripFromSection_ok) simp
  then show "\<not> gradient_enabled (LoadStripFromSection lib fs section defaults)"
    using a by (auto simp: strip_ok_def)
qed

theorem gradient_requires_static_witness:
  "reachable sample_lib (LoadConfig sample_lib gradient_fs (InitConfig sample_lib)) \<and>
   LoadStripFromSection sample_lib gradient_fs ''left_wing''
       (LoadStripFromSection sample_lib gradient_fs ''global'' (identity_strip sample_lib))
     \<in> set (strips (LoadConfig sample_lib gradient_fs (InitConfig sample_lib))) \<and>
   gradient_enabled (LoadStripFromSection sample_lib gradient_fs ''left_wing''
       (LoadStripFromSection sample_lib gradient_fs ''global'' (identity_strip sample_lib))) \<and>
   static_color_enabled (LoadStripFromSection sample_lib gradient_fs ''left_wing''
       (LoadStripFromSection sample_lib gradient_fs ''global'' (identity_strip sample_lib))) \<and>
   \<not> gradient_enabled (identity_strip sample_lib) \<and>
   ParseHexColor (GetPrivateProfileStringA gradient_only_fs ''title'' ''gradient_color'' [] 16)
     = Some (0, 0, 0xFF) \<and>
   \<not> static_color_enabled
       (LoadStripFromSection sample_lib gradient_only_fs ''title'' (identity_strip sample_lib)) \<and>
   \<not> gradient_enabled
       (LoadStripFromSection sample_lib gradient_only_fs ''title'' (identity_strip sample_lib))"
proof -
  have r: "reachable sample_lib (LoadConfig sample_lib gradient_fs (InitConfig sample_lib))"
    by (intro reachable.intros)
  have m: "LoadStripFromSection sample_lib gradient_fs ''left_wing''
       (LoadStripFromSection sample_lib gradient_fs ''global'' (identity_strip sample_lib))
     \<in> set (strips (LoadConfig sample_lib gradient_fs (InitConfig sample_lib)))"
  proof -
    have "attr_ok gradient_fs" by (simp add: gradient_fs_def sample_fs_def)
    moreover have "''left_wing'' \<in> set StripSectionNames" by (simp add: StripSectionNames_def)
    ultimately show ?thesis by (simp add: LoadConfig_strips)
  qed
  have g: "gradient_enabled (LoadStripFromSection sample_lib gradient_fs ''left_wing''
       (LoadStripFromSection sample_lib gradient_fs ''global'' (identity_strip sample_lib)))"
    by (simp add: LoadStripFromSection_fields gradient_fs_def fs_defs hex_defs identity_strip_def)
  have p: "ParseHexColor (GetPrivateProfileStringA gradient_only_fs ''title'' ''gradient_color'' [] 16)
     = Some (0, 0, 0xFF)"
    by (simp add: gradient_only_fs_def fs_defs hex_defs)
  have n: "\<not> static_color_enabled
       (LoadStripFromSection sample_lib gradient_only_fs ''title'' (identity_strip sample_lib))"
    by (simp add: LoadStripFromSection_fields gradient_only_fs_def fs_defs hex_defs identity_strip_def)
  show ?thesis
    using gradient_requires_static[of sample_lib
            "LoadConfig sample_lib gradient_fs (InitConfig sample_lib)"
            "identity_strip sample_lib" gradient_only_fs "''title''"]
      r m g p n
    by (auto simp: identity_strip_def)
qed

section \<open>HSV round trip\<close>

text \<open>
  Claim C6 says that for every \<open>(h, s, v)\<close> with \<open>h\<close> in \<open>[0, 359]\<close>, \<open>s\<close> in \<open>[1, 255]\<close> and
  \<open>v\<close> in \<open>[1, 255]\<close>, \<open>HSVtoRGB\<close> followed by \<open>RGBtoHSV\<close> returns each of the three
  components within one unit, the hue modulo 360. It fails in two ways. At a small value
  the saturation is lost: \<open>(0, 128, 1)\<close> gives the pixel \<open>(1, 0, 0)\<close>, which converts back
  to saturation 255, and the same still happens at \<open>v = 127\<close>, where \<open>(0, 253, 127)\<close> comes
  back with saturation 255. At a small saturation the hue is lost: \<open>(1, 1, 255)\<close> gives the
  pixel \<open>(255, 255, 254)\<close>, which converts back to hue 60, at distance 59 from 1 in either
  direction round the circle.
\<close>

theorem hsv_roundtrip_counterexample:
  "HSVtoRGB 0 128 1 = (1, 0, 0) \<and> RGBtoHSV 1 0 0 = (0, 255, 1) \<and>
   hsv_roundtrip 0 128 1 = (0, 255, 1) \<and> \<not> \<bar>255 - (128::int)\<bar> \<le> 1 \<and>
   hsv_roundtrip 0 253 127 = (0, 255, 127) \<and> \<not> \<bar>255 - (253::int)\<bar> \<le> 1 \<and>
   HSVtoRGB 1 1 255 = (255, 255, 254) \<and> RGBtoHSV 255 255 254 = (60, 1, 255) \<and>
   hsv_roundtrip 1 1 255 = (60, 1, 255) \<and>
   \<not> \<bar>60 - (1::int)\<bar> \<le> 1 \<and> \<not> 360 - \<bar>60 - (1::int)\<bar> \<le> 1"
  by (simp add: hsv_roundtrip_def HSVtoRGB_def RGBtoHSV_def Let_def
      signed_divide_int_def signed_modulo_int_def)

text \<open>
  Claim C6 as amended. For every \<open>(h, s, v)\<close> with \<open>h\<close> in \<open>[0, 359]\<close> and \<open>s\<close> and \<open>v\<close> both
  in \<open>[128, 255]\<close>, the round trip returns each of the three components within one unit,
  the hue modulo 360: either \<open>\<bar>h' - h\<bar> \<le> 1\<close>, or \<open>h = 359\<close> comes back as \<open>h' = 0\<close>. On the
  whole domain of the claim, \<open>s\<close> and \<open>v\<close> in \<open>[1, 255]\<close>, the value still comes back exactly,
  the saturation \<open>s'\<close> satisfies \<open>s \<le> s' \<le> s + 254 div v\<close>, the hue is in \<open>[0, 359]\<close>, and
  the hue is within one unit modulo 360 whenever \<open>v * s\<close> is at least \<open>15240 = 60 * 254\<close>
  (which covers the square, where \<open>v * s\<close> is at least \<open>16384\<close>).
\<close>

theorem hsv_roundtrip_amended:
  assumes "0 \<le> h" "h \<le> 359" "1 \<le> s" "s \<le> 255" "1 \<le> v" "v \<le> 255"
      and "hsv_roundtrip h s v = (h', s', v')"
  shows "v' = v \<and> s \<le> s' \<and> s' \<le> s + 254 div v \<and> 0 \<le> h' \<and> h' \<le> 359 \<and>
         (15240 \<le> v * s \<longrightarrow> \<bar>h' - h\<bar> \<le> 1 \<or> h = 359 \<and> h' = 0) \<and>
         (128 \<le> s \<and> 128 \<le> v \<longrightarrow>
            (\<bar>h' - h\<bar> \<le> 1 \<or> h = 359 \<and> h' = 0) \<and> \<bar>s' - s\<bar> \<le> 1 \<and> \<bar>v' - v\<bar> \<le> 1)"
proof -
  obtain r g b where e: "HSVtoRGB h s v = (r, g, b)" by (metis prod_cases3)
  have rt: "RGBtoHSV r g b = (h', s', v')" using assms(7) by (simp add: hsv_roundtrip_def e)
  have s0: "0 \<le> s" and v0: "0 \<le> v" using assms by simp_all
  note ch = HSVtoRGB_uint[OF assms(1) s0 assms(4) v0 assms(6) e]
  note b = hsv_channels_bounds[OF s0 assms(4) v0 ch]
  have mx: "max (max (uint r) (uint g)) (uint b) = v"
    and mn: "min (min (uint r) (uint g)) (uint b) = chan_p s v" using b by simp_all
  have "pixel_value (r, g, b) = v'" by (simp add: pixel_value_def rt)
  then have vv: "v' = v" using mx by (simp add: pixel_value_max)
  have "chan_p s v \<le> v" using b by linarith
  then have "0 \<le> (v - chan_p s v) * 255" by simp
  then have "((v - chan_p s v) * 255) sdiv v = ((v - chan_p s v) * 255) div v"
    using assms(5) by (intro sdiv_nonneg_eq) simp_all
  moreover have "s' = fst (snd (RGBtoHSV r g b))" by (simp add: rt)
  ultimately have ss: "s' = ((v - chan_p s v) * 255) div v"
    using assms(5) by (simp add: RGBtoHSV_sat mx mn)
  note sb = roundtrip_sat_bounds[OF assms(5) s0 assms(4)]
  have sat: "s \<le> s'" "s' \<le> s + 254 div v" using ss sb by simp_all
  have hr: "0 \<le> h'" "h' \<le> 359" using RGBtoHSV_range[OF rt] by simp_all
  have hh: "h' = rgb_hue (uint r) (uint g) (uint b)" using RGBtoHSV_hue[of r g b] rt by simp
  have hue: "\<bar>h' - h\<bar> \<le> 1 \<or> h = 359 \<and> h' = 0" if "15240 \<le> v * s"
    using roundtrip_hue[OF assms(1-6) that ch] hh by simp
  have sq: "\<bar>s' - s\<bar> \<le> 1 \<and> 15240 \<le> v * s" if "128 \<le> s \<and> 128 \<le> v"
  proof -
    have "254 div v \<le> 254 div 128" using that by (intro zdiv_mono2) simp_all
    then have "254 div v \<le> 1" by simp
    then have a: "\<bar>s' - s\<bar> \<le> 1" using sat by linarith
    have "128 * 128 \<le> v * s" using that by (intro mult_mono) simp_all
    then show ?thesis using a by simp
  qed
  show ?thesis using vv sat hr hue sq by simp
qed

theorem hsv_roundtrip_amended_witness:
  "(0::int) \<le> 30 \<and> (30::int) \<le> 359 \<and> (128::int) \<le> 200 \<and> (200::int) \<le> 255 \<and>
   hsv_roundtrip 30 200 200 = (29, 200, 200) \<and> \<bar>29 - (30::int)\<bar> \<le> 1 \<and>
   (128::int) \<le> 129 \<and> hsv_roundtrip 359 128 129 = (0, 128, 129) \<and>
   (1::int) \<le> 100 \<and> (15240::int) \<le> 100 * 200 \<and> hsv_roundtrip 30 200 100 = (29, 201, 100) \<and>
   (200::int) \<le> 201 \<and> (201::int) \<le> 200 + 254 div 100"
  using hsv_roundtrip_amended[of 30 200 200 29 200 200]
    hsv_roundtrip_amended[of 359 128 129 0 128 129]
    hsv_roundtrip_amended[of 30 200 100 29 201 100]
  by (simp add: hsv_roundtrip_def HSVtoRGB_def RGBtoHSV_def Let_def
      signed_divide_int_def signed_modulo_int_def)

section \<open>Value preservation under a static colour\<close>

text \<open>
  Claim C7. For a strip with a static colour (with or without a gradient), a buffer of \<open>n\<close>
  LEDs and every LED \<open>m\<close> of it: the colour stage returns a pixel whose value component
  under \<open>RGBtoHSV\<close> is the value component of the pixel after gamma correction, whatever
  that pixel is; \<open>TransformStrip\<close> returns, and LED \<open>m\<close> of its output is the brightness
  stage applied to the colour stage's pixel, so with the brightness at 100 percent the output
  LED itself has the value component of the gamma-corrected input LED.
\<close>

theorem static_color_preserves_value:
  assumes "enabled strip" "static_color_enabled strip" "3 * n \<le> length data" "m < n"
  shows "(\<forall>px. pixel_value (strip_color_stage strip (int n) (int (3 * m)) px) = pixel_value px) \<and>
         (\<exists>out. TransformStrip strip data (int (3 * n)) = Some out \<and>
            led out m =
              brightness_stage strip
                (strip_color_stage strip (int n) (int (3 * m))
                   (gamma_stage strip (swap_channels (channelOrder strip) (led data m)))) \<and>
            (brightness strip = 100 \<longrightarrow>
               pixel_value (led out m) =
               pixel_value (gamma_stage strip (swap_channels (channelOrder strip) (led data m)))))"
proof -
  have i: "0 \<le> int (3 * m)" "int (3 * m) < 3 * int n" using assms(4) by simp_all
  have v: "pixel_value (strip_color_stage strip (int n) (int (3 * m)) px) = pixel_value px" for px
    by (rule strip_color_stage_value[OF assms(2) i])
  from TransformStrip_result[OF assms(1,3)] obtain out where
    out: "TransformStrip strip data (int (3 * n)) = Some out"
    and px: "\<And>m. m < n \<Longrightarrow> led out m = strip_pixel strip (int n) (int (3 * m)) (led data m)"
    by blast
  have l: "led out m = brightness_stage strip
                (strip_color_stage strip (int n) (int (3 * m))
                   (gamma_stage strip (swap_channels (channelOrder strip) (led data m))))"
    using px[OF assms(4)] by (simp add: strip_pixel_def)
  show ?thesis using v out l by (simp add: brightness_stage_100)
qed

theorem static_color_preserves_value_witness:
  "enabled violet_strip \<and> static_color_enabled violet_strip \<and> brightness violet_strip = 100 \<and>
   3 * 2 \<le> length [10, 200, 30, 0, 0, 0 :: u8] \<and> (0::nat) < 2 \<and>
   TransformStrip violet_strip [10, 200, 30, 0, 0, 0] (int (3 * 2)) = Some [100, 0, 200, 0, 0, 0] \<and>
   pixel_value (100, 0, 200) = 200 \<and>
   pixel_value (gamma_stage violet_strip (swap_channels (channelOrder violet_strip) (10, 200, 30))) = 200"
  using static_color_preserves_value[of violet_strip 2 "[10, 200, 30, 0, 0, 0]" 0]
  by (simp add: TransformStrip_def violet_strip_def identity_strip_def sample_lib_def
      TransformStrip_loop.simps transform_pixel_def swap_channels_def gamma_stage_def
      BuildGammaLUT_def color_stage_def brightness_stage_def RGBtoHSV_def HSVtoRGB_def
      signed_divide_int_def signed_modulo_int_def Let_def pixel_value_max)

section \<open>Hue wraparound\<close>

text \<open>
  Claim C8. The hue shift a section resolves to is the integer read for \<open>hue_shift\<close> modulo
  360, in \<open>[0, 359]\<close>, for negative and for large integers alike. A file whose \<open>hue_shift\<close>
  reads 370 loads the same configuration as the file with 10 in its place, and even a strip
  record holding 370 transforms every buffer as the one holding 10 does.
\<close>

theorem hue_shift_wraps:
  "(hue_shift (LoadStripFromSection lib fs section defaults) =
      GetPrivateProfileIntA lib fs section ''hue_shift'' (hue_shift defaults) mod 360 \<and>
    0 \<le> hue_shift (LoadStripFromSection lib fs section defaults) \<and>
    hue_shift (LoadStripFromSection lib fs section defaults) \<le> 359) \<and>
   (ini fs section ''hue_shift'' = Some t370 \<and>
    sint (profile_int lib t370) = 370 \<and> sint (profile_int lib t10) = 10 \<longrightarrow>
      LoadConfig lib (set_key fs section ''hue_shift'' t10) c = LoadConfig lib fs c) \<and>
   TransformStrip (strip\<lparr>hue_shift := 370\<rparr>) data numBytes =
     TransformStrip (strip\<lparr>hue_shift := 10\<rparr>) data numBytes"
proof (intro conjI impI)
  show "hue_shift (LoadStripFromSection lib fs section defaults) =
      GetPrivateProfileIntA lib fs section ''hue_shift'' (hue_shift defaults) mod 360"
    by (rule LoadStripFromSection_fields)
  show "0 \<le> hue_shift (LoadStripFromSection lib fs section defaults)"
    "hue_shift (LoadStripFromSection lib fs section defaults) \<le> 359"
    by (simp_all add: LoadStripFromSection_fields)
next
  assume "ini fs section ''hue_shift'' = Some t370 \<and>
    sint (profile_int lib t370) = 370 \<and> sint (profile_int lib t10) = 10"
  then have a: "ini fs section ''hue_shift'' = Some t370"
    "sint (profile_int lib t370) = 370" "sint (profile_int lib t10) = 10" by simp_all
  have "LoadStripFromSection lib (set_key fs section ''hue_shift'' t10) sec d =
         LoadStripFromSection lib fs sec d" for sec d
    by (rule LoadStripFromSection_hue_370_10[OF a])
  moreover have "attr_ok (set_key fs section ''hue_shift'' t10) = attr_ok fs"
    "open_ok (set_key fs section ''hue_shift'' t10) = open_ok fs"
    "write_time (set_key fs section ''hue_shift'' t10) = write_time fs"
    by (simp_all add: set_key_def)
  ultimately show "LoadConfig lib (set_key fs section ''hue_shift'' t10) c = LoadConfig lib fs c"
    unfolding LoadConfig_def by (simp only:)
next
  show "TransformStrip (strip\<lparr>hue_shift := 370\<rparr>) data numBytes =
     TransformStrip (strip\<lparr>hue_shift := 10\<rparr>) data numBytes"
    by (rule TransformStrip_hue_370_10)
qed

theorem hue_shift_wraps_witness:
  "ini hue_370_fs ''title'' ''hue_shift'' = Some ''370'' \<and>
   sint (profile_int sample_lib ''370'') = 370 \<and> sint (profile_int sample_lib ''10'') = 10 \<and>
   hue_shift (LoadStripFromSection sample_lib hue_370_fs ''title'' (identity_strip sample_lib)) = 10 \<and>
   LoadConfig sample_lib (set_key hue_370_fs ''title'' ''hue_shift'' ''10'') (InitConfig sample_lib) =
     LoadConfig sample_lib hue_370_fs (InitConfig sample_lib) \<and>
   TransformStrip (violet_strip\<lparr>hue_shift := 370\<rparr>) [10, 200, 30] 3 =
     TransformStrip (violet_strip\<lparr>hue_shift := 10\<rparr>) [10, 200, 30] 3"
  using hue_shift_wraps[of sample_lib hue_370_fs "''title''" "identity_strip sample_lib"
          "''370''" "''10''" "InitConfig sample_lib" violet_strip "[10, 200, 30]" 3]
  by (simp add: GetPrivateProfileIntA_def hue_370_fs_def sample_fs_def ini_of_def
      sample_lib_def dec_number_def)

section \<open>No channel above the value\<close>

text \<open>
  Claim C10. For every \<open>h\<close> in \<open>[0, 359]\<close>, \<open>s\<close> in \<open>[0, 255]\<close> and \<open>v\<close> in \<open>[0, 255]\<close>
  each channel \<open>HSVtoRGB\<close> returns is at most \<open>v\<close>. Hence, at every byte offset \<open>i\<close> of an
  LED of the strip, the colour stage (static colour, gradient, or hue shift and saturation
  with non-negative values, as every strip of a reachable configuration has them) returns
  no channel above the value component of the gamma-corrected pixel and maps the all-zero
  pixel to itself; an LED that is all zero after gamma correction is all zero in the output
  of \<open>TransformStrip\<close> under any static colour or gradient.
\<close>

theorem color_stages_never_exceed_value:
  "(0 \<le> h \<and> h \<le> 359 \<and> 0 \<le> s \<and> s \<le> 255 \<and> 0 \<le> v \<and> v \<le> 255 \<longrightarrow>
      channels_le (HSVtoRGB h s v) v) \<and>
   ((static_color_enabled strip \<or> (0 \<le> hue_shift strip \<and> 0 \<le> saturation strip)) \<and>
      0 \<le> i \<and> i < 3 * numLEDs \<longrightarrow>
      channels_le (strip_color_stage strip numLEDs i px) (pixel_value px) \<and>
      strip_color_stage strip numLEDs i (0, 0, 0) = (0, 0, 0)) \<and>
   (reachable lib c \<and> loaded \<in> set (strips c) \<and> 0 \<le> i \<and> i < 3 * numLEDs \<longrightarrow>
      channels_le (strip_color_stage loaded numLEDs i px) (pixel_value px)) \<and>
   (enabled strip \<and> static_color_enabled strip \<and> 3 * n \<le> length data \<and> m < n \<and>
      led data m = (0, 0, 0) \<and> gamma_stage strip (0, 0, 0) = (0, 0, 0) \<longrightarrow>
      (\<exists>out. TransformStrip strip data (int (3 * n)) = Some out \<and> led out m = (0, 0, 0)))"
proof (intro conjI impI)
  assume "0 \<le> h \<and> h \<le> 359 \<and> 0 \<le> s \<and> s \<le> 255 \<and> 0 \<le> v \<and> v \<le> 255"
  then show "channels_le (HSVtoRGB h s v) v" by (simp add: HSVtoRGB_channels_le)
next
  assume a: "(static_color_enabled strip \<or> (0 \<le> hue_shift strip \<and> 0 \<le> saturation strip)) \<and>
      0 \<le> i \<and> i < 3 * numLEDs"
  then show "channels_le (strip_color_stage strip numLEDs i px) (pixel_value px)"
    by (simp add: color_stage_le)
  from a have "channels_le (strip_color_stage strip numLEDs i (0, 0, 0)) (pixel_value (0, 0, 0))"
    by (intro color_stage_le) simp_all
  then show "strip_color_stage strip numLEDs i (0, 0, 0) = (0, 0, 0)"
    by (simp add: pixel_value_zero channels_le_zero)
next
  assume a: "reachable lib c \<and> loaded \<in> set (strips c) \<and> 0 \<le> i \<and> i < 3 * numLEDs"
  then have "strip_ok loaded" using reachable_ok[of lib c] by blast
  then show "channels_le (strip_color_stage loaded numLEDs i px) (pixel_value px)"
    using a by (intro color_stage_le) (simp_all add: strip_ok_def)
next
  assume a: "enabled strip \<and> static_color_enabled strip \<and> 3 * n \<le> length data \<and> m < n \<and>
      led data m = (0, 0, 0) \<and> gamma_stage strip (0, 0, 0) = (0, 0, 0)"
  then have e: "enabled strip" and l: "3 * n \<le> length data" and m: "m < n" by simp_all
  from TransformStrip_result[OF e l] obtain out where
    out: "TransformStrip strip data (int (3 * n)) = Some out"
    and px: "\<And>m. m < n \<Longrightarrow> led out m = strip_pixel strip (int n) (int (3 * m)) (led data m)"
    by blast
  have "channels_le (strip_color_stage strip (int n) (int (3 * m)) (0, 0, 0)) (pixel_value (0, 0, 0))"
    using a by (intro color_stage_le) simp_all
  then have "strip_color_stage strip (int n) (int (3 * m)) (0, 0, 0) = (0, 0, 0)"
    by (simp add: pixel_value_zero channels_le_zero)
  then have "led out m = (0, 0, 0)"
    using px[OF m] a by (simp add: strip_pixel_def swap_channels_zero brightness_stage_zero)
  then show "\<exists>out. TransformStrip strip data (int (3 * n)) = Some out \<and> led out m = (0, 0, 0)"
    using out by simp
qed

theorem color_stages_never_exceed_value_witness:
  "(0::int) \<le> 270 \<and> (270::int) \<le> 359 \<and> (0::int) \<le> 255 \<and> (0::int) \<le> 200 \<and> (200::int) \<le> 255 \<and>
   HSVtoRGB 270 255 200 = (100, 0, 200) \<and> channels_le (100, 0, 200) 200 \<and>
   static_color_enabled violet_strip \<and> (0::int) \<le> 3 \<and> (3::int) < 3 * 2 \<and>
   reachable sample_lib (InitConfig sample_lib) \<and>
   identity_strip sample_lib \<in> set (strips (InitConfig sample_lib)) \<and>
   channels_le (strip_color_stage (identity_strip sample_lib) 2 3 (0, 0, 0)) (pixel_value (0, 0, 0)) \<and>
   strip_color_stage violet_strip 2 3 (0, 0, 0) = (0, 0, 0) \<and>
   enabled violet_strip \<and> 3 * 2 \<le> length [10, 200, 30, 0, 0, 0 :: u8] \<and> (1::nat) < 2 \<and>
   led [10, 200, 30, 0, 0, 0 :: u8] 1 = (0, 0, 0) \<and>
   gamma_stage violet_strip (0, 0, 0) = (0, 0, 0) \<and>
   TransformStrip violet_strip [10, 200, 30, 0, 0, 0] (int (3 * 2)) = Some [100, 0, 200, 0, 0, 0] \<and>
   led [100, 0, 200, 0, 0, 0 :: u8] 1 = (0, 0, 0)"
  using color_stages_never_exceed_value
          [where h = 270 and s = 255 and v = 200 and strip = violet_strip and i = 3
             and numLEDs = 2 and px = "(0, 0, 0)" and n = 2
             and data = "[10, 200, 30, 0, 0, 0]" and m = 1 and lib = sample_lib
             and c = "InitConfig sample_lib" and loaded = "identity_strip sample_lib"]
    reachable.init[of sample_lib]
  by (simp add: TransformStrip_def violet_strip_def identity_strip_def sample_lib_def
      TransformStrip_loop.simps transform_pixel_def swap_channels_def gamma_stage_def
      BuildGammaLUT_def color_stage_def brightness_stage_def RGBtoHSV_def HSVtoRGB_def
      signed_divide_int_def signed_modulo_int_def Let_def led_def channels_le_def
      strip_color_stage_def staticHSV1_def staticHSV2_def InitConfig_def pixel_value_max)

end
